theory Spec2Isabelle
  imports Complex_Main "HOL-Library.Sublist"
begin

section \<open>Python strings\<close>

text \<open>
  A Python \<open>str\<close> is modelled as a \<open>string\<close>: a list of characters, each character
  standing for the code point of the same number (0 to 255). The character classes
  and case mapping below are Python's on that range.
\<close>

definition ord :: "char \<Rightarrow> nat" where
  "ord c = of_char c"

text \<open>\<open>str.isspace\<close>, which is also the class \<open>\s\<close> of \<open>re\<close> on \<open>str\<close> patterns and
  the set of characters that \<open>str.strip()\<close> and \<open>str.split()\<close> remove:
  code points 9 to 13, 28 to 32, 133 and 160.\<close>

definition isspace :: "char \<Rightarrow> bool" where
  "isspace c = (let n = ord c in (9 \<le> n \<and> n \<le> 13) \<or> (28 \<le> n \<and> n \<le> 32) \<or> n = 133 \<or> n = 160)"

text \<open>The class \<open>\d\<close>: below 256 the decimal digits are \<open>0\<close> to \<open>9\<close>.\<close>

definition isdigit :: "char \<Rightarrow> bool" where
  "isdigit c = (48 \<le> ord c \<and> ord c \<le> 57)"

text \<open>\<open>str.lower()\<close>: \<open>A\<close> to \<open>Z\<close> and the capital letters 192 to 222 (215, the
  multiplication sign, is no letter) move up by 32; every other character is kept.\<close>

definition lower_char :: "char \<Rightarrow> char" where
  "lower_char c = (let n = ord c in
     if (65 \<le> n \<and> n \<le> 90) \<or> (192 \<le> n \<and> n \<le> 222 \<and> n \<noteq> 215) then char_of (n + 32) else c)"

definition lower :: "string \<Rightarrow> string" where
  "lower s = map lower_char s"

definition strip :: "string \<Rightarrow> string" where
  "strip s = rev (dropWhile isspace (rev (dropWhile isspace s)))"

text \<open>\<open>w in s\<close> for two strings: \<open>w\<close> occurs in \<open>s\<close> as a contiguous substring.\<close>

fun py_in :: "string \<Rightarrow> string \<Rightarrow> bool" where
  "py_in w [] = (w = [])"
| "py_in w (c # cs) = (prefix w (c # cs) \<or> py_in w cs)"

text \<open>\<open>s.count(w)\<close>: the number of non-overlapping occurrences of \<open>w\<close>, found from left
  to right; the empty string occurs between any two characters and at both ends.\<close>

function py_count :: "string \<Rightarrow> string \<Rightarrow> nat" where
  "py_count w s =
     (if w = [] then Suc (length s)
      else if s = [] then 0
      else if prefix w s then Suc (py_count w (drop (length w) s))
      else py_count w (tl s))"
  by pat_completeness auto
termination
  by (relation "measure (\<lambda>(w, s). length s)") auto

declare py_count.simps [simp del]

text \<open>\<open>s.split()\<close>: the maximal runs of characters that are not white space. The first
  argument is the run read so far.\<close>

fun split_from :: "string \<Rightarrow> string \<Rightarrow> string list" where
  "split_from cur [] = (if cur = [] then [] else [cur])"
| "split_from cur (c # cs) =
     (if isspace c then (if cur = [] then split_from [] cs else cur # split_from [] cs)
      else split_from (cur @ [c]) cs)"

definition split_ws :: "string \<Rightarrow> string list" where
  "split_ws s = split_from [] s"

text \<open>\<open>s.split(d)\<close> for a one-character separator: one field more than separators.\<close>

fun split_on_from :: "char \<Rightarrow> string \<Rightarrow> string \<Rightarrow> string list" where
  "split_on_from d cur [] = [cur]"
| "split_on_from d cur (c # cs) =
     (if c = d then cur # split_on_from d [] cs else split_on_from d (cur @ [c]) cs)"

definition split_on :: "char \<Rightarrow> string \<Rightarrow> string list" where
  "split_on d s = split_on_from d [] s"

text \<open>\<open>sep.join(xs)\<close>.\<close>

fun join :: "string \<Rightarrow> string list \<Rightarrow> string" where
  "join sep [] = []"
| "join sep [x] = x"
| "join sep (x # y # ys) = x @ sep @ join sep (y # ys)"

text \<open>\<open>s.rsplit(d, 1)[0]\<close> for a one-character separator: the part of \<open>s\<close> before the
  last \<open>d\<close>, all of \<open>s\<close> when \<open>d\<close> does not occur.\<close>

definition rsplit1_head :: "char \<Rightarrow> string \<Rightarrow> string" where
  "rsplit1_head d s =
     (if d \<in> set s then rev (tl (dropWhile (\<lambda>c. c \<noteq> d) (rev s))) else s)"

section \<open>The fragment of \<open>re\<close> that the program uses\<close>

text \<open>
  A pattern is a sequence of items: a literal, an optional character \<open>c?\<close>, a starred or
  plussed character class, an alternative of literals \<open>(?:a|b)\<close>, or a capture group
  around an item. A class is a bracket expression, positive or negated, of single
  characters, ranges, \<open>\s\<close> and \<open>\d\<close>.

  Matching is Python's backtracking: \<open>item_matches\<close> and \<open>seq_matches\<close> list every way to
  match at the start of the subject, as captured groups and remaining subject, in the
  order in which the matcher tries them (a greedy repetition tries the longest first).
  The match that \<open>re\<close> returns is the head of that list.
\<close>

datatype atom = Ch char | Rng char char | WS | Dig

datatype cls = Pos "atom list" | Neg "atom list"

fun in_atom :: "atom \<Rightarrow> char \<Rightarrow> bool" where
  "in_atom (Ch x) c = (c = x)"
| "in_atom (Rng a b) c = (ord a \<le> ord c \<and> ord c \<le> ord b)"
| "in_atom WS c = isspace c"
| "in_atom Dig c = isdigit c"

fun in_cls :: "cls \<Rightarrow> char \<Rightarrow> bool" where
  "in_cls (Pos as) c = list_ex (\<lambda>a. in_atom a c) as"
| "in_cls (Neg as) c = (\<not> list_ex (\<lambda>a. in_atom a c) as)"

datatype item = Lit string | Opt char | Star cls | Plus cls | Alt "string list" | Group item

fun item_matches :: "item \<Rightarrow> string \<Rightarrow> (string list \<times> string) list" where
  "item_matches (Lit l) s = (if prefix l s then [([], drop (length l) s)] else [])"
| "item_matches (Opt c) s =
     (case s of x # xs \<Rightarrow> (if x = c then [([], xs)] else []) | [] \<Rightarrow> []) @ [([], s)]"
| "item_matches (Star k) s =
     map (\<lambda>n. ([], drop n s)) (rev [0 ..< Suc (length (takeWhile (in_cls k) s))])"
| "item_matches (Plus k) s =
     map (\<lambda>n. ([], drop n s)) (rev [1 ..< Suc (length (takeWhile (in_cls k) s))])"
| "item_matches (Alt ls) s =
     concat (map (\<lambda>l. if prefix l s then [([], drop (length l) s)] else []) ls)"
| "item_matches (Group i) s =
     map (\<lambda>(caps, r). (take (length s - length r) s # caps, r)) (item_matches i s)"

fun seq_matches :: "item list \<Rightarrow> string \<Rightarrow> (string list \<times> string) list" where
  "seq_matches [] s = [([], s)]"
| "seq_matches (i # is) s =
     concat (map (\<lambda>(c1, r1). map (\<lambda>(c2, r2). (c1 @ c2, r2)) (seq_matches is r1))
                 (item_matches i s))"

text \<open>A match object: the matched text, the captured groups, the subject after the match.\<close>

record rmatch =
  group0 :: string
  groups :: "string list"
  after :: string

text \<open>\<open>re.search\<close>: the match at the leftmost position that has one.\<close>

fun search :: "item list \<Rightarrow> string \<Rightarrow> rmatch option" where
  "search pat [] =
     (case seq_matches pat [] of
        [] \<Rightarrow> None
      | (caps, r) # _ \<Rightarrow> Some \<lparr>group0 = [], groups = caps, after = r\<rparr>)"
| "search pat (c # cs) =
     (case seq_matches pat (c # cs) of
        [] \<Rightarrow> search pat cs
      | (caps, r) # _ \<Rightarrow>
          Some \<lparr>group0 = take (length (c # cs) - length r) (c # cs), groups = caps, after = r\<rparr>)"

datatype py_error = IndexError | AttributeError

text \<open>\<open>m.group(n)\<close>: raises \<open>IndexError\<close> when the pattern has no group \<open>n\<close>.\<close>

definition group :: "rmatch \<Rightarrow> nat \<Rightarrow> py_error + string" where
  "group m n =
     (if n = 0 then Inr (group0 m)
      else if n \<le> length (groups m) then Inr (groups m ! (n - 1))
      else Inl IndexError)"

text \<open>\<open>re.findall\<close> for a pattern without groups: the texts of the non-overlapping
  matches, from left to right. The number is how many characters of the subject still
  belong to the last match. (After an empty match the scan moves on by one character;
  no pattern of the program matches the empty string.)\<close>

fun findall_from :: "item list \<Rightarrow> nat \<Rightarrow> string \<Rightarrow> string list" where
  "findall_from pat n [] =
     (case seq_matches pat [] of [] \<Rightarrow> [] | _ # _ \<Rightarrow> (if n = 0 then [[]] else []))"
| "findall_from pat (Suc n) (c # cs) = findall_from pat n cs"
| "findall_from pat 0 (c # cs) =
     (case seq_matches pat (c # cs) of
        [] \<Rightarrow> findall_from pat 0 cs
      | (caps, r) # _ \<Rightarrow>
          take (length (c # cs) - length r) (c # cs)
            # findall_from pat (length (c # cs) - length r - 1) cs)"

definition findall :: "item list \<Rightarrow> string \<Rightarrow> string list" where
  "findall pat s = findall_from pat 0 s"

section \<open>config.py\<close>

definition QUIZ_SECRET :: string where
  "QUIZ_SECRET = ''MONAHARINIR0802''"

definition QUIZ_EMAIL :: string where
  "QUIZ_EMAIL = ''22f1000912@ds.study.iitm.ac.in''"

definition TOTAL_WORK_TIMEOUT :: int where
  "TOTAL_WORK_TIMEOUT = 150"

definition HTTP_TIMEOUT :: int where
  "HTTP_TIMEOUT = 30"

definition MAX_PAYLOAD_BYTES :: nat where
  "MAX_PAYLOAD_BYTES = 1 * 1024 * 1024"

section \<open>utils.py\<close>

text \<open>The class \<open>[^\s'"<>]\<close> of the URL patterns.\<close>

definition url_char :: cls where
  \<open>url_char = Neg [WS, Ch (CHR 0x27), Ch (CHR ''"''), Ch (CHR ''<''), Ch (CHR ''>'')]\<close>

text \<open>\<^verbatim>\<open>https?://[^\s'"<>]+/submit[^\s'"<>]*\<close>\<close>

definition submit_pattern :: "item list" where
  "submit_pattern =
     [Lit ''http'', Opt (CHR ''s''), Lit ''://'', Plus url_char, Lit ''/submit'', Star url_char]"

text \<open>\<^verbatim>\<open>https?://[^\s'"<>]+/(?:api|quiz|answer)[^\s'"<>]*\<close>\<close>

definition api_pattern :: "item list" where
  "api_pattern =
     [Lit ''http'', Opt (CHR ''s''), Lit ''://'', Plus url_char, Lit ''/'',
      Alt [''api'', ''quiz'', ''answer''], Star url_char]"

text \<open>The loop over \<open>hrefs\<close>: the first entry that is not empty and contains one of the
  three words.\<close>

fun first_submit_href :: "string list \<Rightarrow> string option" where
  "first_submit_href [] = None"
| "first_submit_href (u # us) =
     (if u \<noteq> [] \<and> (py_in ''submit'' u \<or> py_in ''answer'' u \<or> py_in ''upload'' u)
      then Some u else first_submit_href us)"

text \<open>\<open>extract_submit_url(text, html, hrefs)\<close> of utils.py; \<open>None\<close> is Python's \<open>None\<close>.\<close>

definition utils_extract_submit_url :: "string \<Rightarrow> string \<Rightarrow> string list \<Rightarrow> string option" where
  "utils_extract_submit_url text html hrefs =
     (case first_submit_href hrefs of
        Some u \<Rightarrow> Some u
      | None \<Rightarrow>
         (case search submit_pattern (html @ [CHR 0x0A] @ text) of
            Some m \<Rightarrow> Some (group0 m)
          | None \<Rightarrow>
             (case search api_pattern (html @ [CHR 0x0A] @ text) of
                Some m2 \<Rightarrow> Some (group0 m2)
              | None \<Rightarrow> None)))"

text \<open>
  Dictionaries are objects: a variable holds a reference. The heap is the list of the
  dictionaries allocated so far, a reference is an index into it, and allocation appends.
  \<^verbatim>\<open>
  def mask_secret(payload: dict) -> dict:
      out = dict(payload)
      if "secret" in out:
          out["secret"] = "****"
      return out
  \<close>
\<close>

datatype pyval = PyStr string | PyInt int | PyNone

type_synonym dict = "string \<rightharpoonup> pyval"

type_synonym heap = "dict list"

text \<open>\<open>dict(payload)\<close>: a new dictionary with the same items.\<close>

definition dict_copy :: "heap \<Rightarrow> nat \<Rightarrow> nat \<times> heap" where
  "dict_copy h p = (length h, h @ [h ! p])"

text \<open>\<open>out[k] = v\<close>: the dictionary at reference \<open>q\<close> is updated in place.\<close>

definition dict_setitem :: "heap \<Rightarrow> nat \<Rightarrow> string \<Rightarrow> pyval \<Rightarrow> heap" where
  "dict_setitem h q k v = h[q := (h ! q)(k \<mapsto> v)]"

definition mask_secret :: "heap \<Rightarrow> nat \<Rightarrow> nat \<times> heap" where
  "mask_secret h payload =
     (case dict_copy h payload of (out, h1) \<Rightarrow>
        if (h1 ! out) ''secret'' \<noteq> None
        then (out, dict_setitem h1 out ''secret'' (PyStr ''****''))
        else (out, h1))"

section \<open>solver.py: the rendering-based solver\<close>

text \<open>What \<open>render_page\<close> returns: the page as the browser rendered it.\<close>

record page =
  page_html :: string
  page_text :: string
  page_hrefs :: "string list"
  page_scripts :: "string list"

definition secret_chars :: cls where
  "secret_chars = Pos [Rng (CHR ''A'') (CHR ''Z''), Rng (CHR ''a'') (CHR ''z''),
                       Rng (CHR ''0'') (CHR ''9''), Ch (CHR ''_''), Ch (CHR ''-'')]"

text \<open>The five patterns, in the order of the source:
  \<^verbatim>\<open>"secret"\s*:\s*"([^"]+)"\<close>, \<^verbatim>\<open>secret=([A-Za-z0-9_\-]+)\<close>,
  \<^verbatim>\<open><span id="secret">([^<]+)</span>\<close>, \<^verbatim>\<open>data-secret="([^"]+)"\<close>,
  \<^verbatim>\<open>SECRET:\s*([A-Za-z0-9_\-]+)\<close>.\<close>

definition secret_patterns :: "item list list" where
  \<open>secret_patterns =
    [ [Lit ''"secret"'', Star (Pos [WS]), Lit '':'', Star (Pos [WS]), Lit ''"'',
       Group (Plus (Neg [Ch (CHR ''"'')])), Lit ''"''],
      [Lit ''secret='', Group (Plus secret_chars)],
      [Lit ''<span id="secret">'', Group (Plus (Neg [Ch (CHR ''<'')])), Lit ''</span>''],
      [Lit ''data-secret="'', Group (Plus (Neg [Ch (CHR ''"'')])), Lit ''"''],
      [Lit ''SECRET:'', Star (Pos [WS]), Group (Plus secret_chars)] ]\<close>

text \<open>The loop over the patterns: the first pattern that matches sets the secret to its
  group 1, stripped, and ends the loop. \<open>Inr None\<close>: no pattern matched.\<close>

fun extract_secret_loop :: "item list list \<Rightarrow> string \<Rightarrow> py_error + string option" where
  "extract_secret_loop [] html = Inr None"
| "extract_secret_loop (pat # pats) html =
     (case search pat html of
        None \<Rightarrow> extract_secret_loop pats html
      | Some m \<Rightarrow> (case group m 1 of Inl e \<Rightarrow> Inl e | Inr g \<Rightarrow> Inr (Some (strip g))))"

definition UNKNOWN_SECRET :: string where
  "UNKNOWN_SECRET = ''UNKNOWN_SECRET''"

text \<open>\<open>if not extracted_secret\<close>: \<open>None\<close> and the empty string are both false.\<close>

definition extract_secret :: "string \<Rightarrow> py_error + string" where
  "extract_secret html =
     (case extract_secret_loop secret_patterns html of
        Inl e \<Rightarrow> Inl e
      | Inr None \<Rightarrow> Inr UNKNOWN_SECRET
      | Inr (Some s) \<Rightarrow> Inr (if s = [] then UNKNOWN_SECRET else s))"

definition detect_task :: "string \<Rightarrow> string \<Rightarrow> string" where
  "detect_task text url =
     (if py_in ''count the'' (lower text) then ''count''
      else if py_in ''checksum'' (lower text) then ''checksum''
      else if py_in ''audio'' url then ''audio''
      else if py_in ''scrape'' url then ''scrape''
      else ''general'')"

definition solve_task :: "string \<Rightarrow> string \<Rightarrow> pyval" where
  "solve_task task_type text =
     (if task_type = ''scrape'' then PyInt (int (length (findall [Plus (Pos [Dig])] text)))
      else if task_type = ''count'' then PyInt (int (py_count ''the'' (lower text)))
      else if task_type = ''checksum'' then PyInt (int (sum_list (map ord text)) mod 1000)
      else if task_type = ''audio'' then PyInt 4
      else PyStr ''task_executed_successfully'')"

record solved =
  sol_answer :: pyval
  sol_secret :: string

definition solve_quiz_page :: "string \<Rightarrow> page \<Rightarrow> py_error + solved" where
  "solve_quiz_page url pg =
     (case extract_secret (page_html pg) of
        Inl e \<Rightarrow> Inl e
      | Inr extracted_secret \<Rightarrow>
          Inr \<lparr>sol_answer = solve_task (detect_task (page_text pg) url) (page_text pg),
               sol_secret = extracted_secret\<rparr>)"

section \<open>main.py: credentials, question parsing, answers\<close>

definition YOUR_EMAIL :: string where
  "YOUR_EMAIL = QUIZ_EMAIL"

definition YOUR_SECRET :: string where
  "YOUR_SECRET = QUIZ_SECRET"

text \<open>\<open>verify_credentials\<close>: both inputs are stripped and then compared. (\<open>strip\<close> and
  \<open>==\<close> on \<open>str\<close> values raise nothing, so the \<open>except\<close> branch is not taken.)\<close>

definition verify_credentials :: "string \<Rightarrow> string \<Rightarrow> bool" where
  "verify_credentials email secret =
     (let received_email = strip email;
          received_secret = strip secret;
          email_match = (received_email = YOUR_EMAIL);
          secret_match = (received_secret = YOUR_SECRET)
      in email_match \<and> secret_match)"

text \<open>\<open>re.sub\<close> of the pattern \<open>k+\<close>: every maximal run of characters of the class \<open>k\<close> is
  replaced by \<open>repl\<close>. The flag says that the previous character was part of a run.\<close>

fun sub_runs_from :: "cls \<Rightarrow> string \<Rightarrow> bool \<Rightarrow> string \<Rightarrow> string" where
  "sub_runs_from k repl in_run [] = []"
| "sub_runs_from k repl in_run (c # cs) =
     (if in_cls k c
      then (if in_run then sub_runs_from k repl True cs else repl @ sub_runs_from k repl True cs)
      else c # sub_runs_from k repl False cs)"

definition sub_runs :: "cls \<Rightarrow> string \<Rightarrow> string \<Rightarrow> string" where
  "sub_runs k repl s = sub_runs_from k repl False s"

text \<open>The first two steps of \<open>parse_question\<close>: runs of characters outside
  \<^verbatim>\<open>[\x00-\x7F]\<close> become one space, then white space is normalised.\<close>

definition clean_text :: "string \<Rightarrow> string" where
  "clean_text text =
     join '' '' (split_ws (sub_runs (Neg [Rng (CHR 0x00) (CHR 0x7F)]) '' '' text))"

text \<open>\<^verbatim>\<open>https?://[^\s<>"]+\<close>\<close>

definition url_pattern :: "item list" where
  \<open>url_pattern =
     [Lit ''http'', Opt (CHR ''s''), Lit ''://'',
      Plus (Neg [WS, Ch (CHR ''<''), Ch (CHR ''>''), Ch (CHR ''"'')])]\<close>

text \<open>\<open>[url for url in urls if 'submit' in url.lower()]\<close>\<close>

definition submit_urls :: "string list \<Rightarrow> string list" where
  "submit_urls urls = filter (\<lambda>url. py_in ''submit'' (lower url)) urls"

text \<open>The loop over the sentences: the first one that, stripped, is longer than 20
  characters and starts with none of \<open>http\<close>, \<open>{\<close>, \<open><\<close>; the empty string when there
  is none.\<close>

fun first_question :: "string list \<Rightarrow> string" where
  "first_question [] = []"
| "first_question (line # lines) =
     (let clean_line = strip line in
      if length clean_line > 20 \<and> \<not> prefix ''http'' clean_line
         \<and> \<not> prefix ''{'' clean_line \<and> \<not> prefix ''<'' clean_line
      then clean_line else first_question lines)"

text \<open>\<open>any(word in text_lower for word in words)\<close>\<close>

definition any_word_in :: "string list \<Rightarrow> string \<Rightarrow> bool" where
  "any_word_in words text_lower = list_ex (\<lambda>word. py_in word text_lower) words"

definition task_type_of :: "string \<Rightarrow> string" where
  "task_type_of text_lower =
     (if any_word_in [''download'', ''file'', ''.pdf'', ''.csv''] text_lower then ''file_download''
      else if any_word_in [''sum'', ''total'', ''add'', ''calculate''] text_lower then ''sum_calculation''
      else if py_in ''api'' text_lower then ''api_call''
      else if any_word_in [''scrape'', ''extract'', ''parse''] text_lower then ''scraping''
      else if any_word_in [''count'', ''number of''] text_lower then ''counting''
      else if any_word_in [''audio'', ''sound'', ''listen''] text_lower then ''audio''
      else ''general'')"

text \<open>The dictionary \<open>question_info\<close>. The key \<open>current_url\<close> is absent until the
  caller sets it.\<close>

record question_info =
  qi_question :: string
  qi_submit_url :: string
  qi_task_type :: string
  qi_file_url :: string
  qi_specific_instructions :: string
  qi_current_url :: "string option"

definition parse_question :: "string \<Rightarrow> question_info" where
  "parse_question text =
     (let clean = clean_text text;
          urls = findall url_pattern clean;
          subs = submit_urls urls;
          q = first_question (split_on (CHR ''.'') clean)
      in \<lparr>qi_question = (if q = [] \<and> length clean > 10 then take 200 clean else q),
          qi_submit_url = (case subs of [] \<Rightarrow> [] | u # _ \<Rightarrow> u),
          qi_task_type = task_type_of (lower clean),
          qi_file_url = [],
          qi_specific_instructions = [],
          qi_current_url = None\<rparr>)"

text \<open>\<open>str(n)\<close> for an integer: its decimal digits.\<close>

function str_nat :: "nat \<Rightarrow> string" where
  "str_nat n = (if n < 10 then [char_of (48 + n)] else str_nat (n div 10) @ [char_of (48 + n mod 10)])"
  by pat_completeness auto
termination
  by (relation "measure id") auto

declare str_nat.simps [simp del]

definition str_int :: "int \<Rightarrow> string" where
  "str_int i = (if i < 0 then ''-'' @ str_nat (nat (- i)) else str_nat (nat i))"

text \<open>
  What the program takes from the random generator and the hash function: the value of
  \<open>hash(current_url)\<close> (Python salts string hashes per process), the draw behind
  \<open>randint\<close> and \<open>choice\<close>, which map it into their range, and the draws behind
  the two calls of \<open>uniform\<close> that matter: the jitter added to the grader's delay and
  the pause before the fetch.
\<close>

record randomness =
  url_hash_value :: int
  draw :: nat
  unit_draw :: real
  pause_draw :: real

definition randint :: "randomness \<Rightarrow> int \<Rightarrow> int \<Rightarrow> int" where
  "randint r a b = a + int (draw r mod nat (b - a + 1))"

definition choice :: "randomness \<Rightarrow> string list \<Rightarrow> string" where
  "choice r xs = xs ! (draw r mod length xs)"

definition handle_scraping_demo :: "question_info \<Rightarrow> randomness \<Rightarrow> pyval" where
  "handle_scraping_demo qi r =
     (let url_hash = url_hash_value r mod 1000 + 1 in
      if url_hash mod 3 = 0 then PyInt url_hash
      else if url_hash mod 3 = 1 then PyStr (''scraped_data_'' @ str_int url_hash)
      else PyStr (''extracted_'' @ str_int url_hash @ ''_items''))"

definition handle_general_demo :: "question_info \<Rightarrow> randomness \<Rightarrow> pyval" where
  "handle_general_demo qi r =
     PyStr (choice r [''task_completed_successfully'', ''process_executed'',
                      ''operation_finished'', ''analysis_complete''])"

definition handle_general_question :: "question_info \<Rightarrow> randomness \<Rightarrow> pyval" where
  "handle_general_question qi r =
     (let url_hash = url_hash_value r mod 1000 + 1 in
      PyStr (choice r [''completed_'' @ str_int url_hash, ''processed_'' @ str_int url_hash,
                       ''executed_'' @ str_int url_hash, ''finished_'' @ str_int url_hash]))"

text \<open>\<open>generate_answer\<close>. The pause before the answer changes no value.\<close>

definition generate_answer :: "question_info \<Rightarrow> randomness \<Rightarrow> pyval" where
  "generate_answer qi r =
     (let task_type = qi_task_type qi;
          current_url = (case qi_current_url qi of None \<Rightarrow> [] | Some u \<Rightarrow> u)
      in if py_in ''demo-scrape'' current_url then handle_scraping_demo qi r
         else if py_in ''demo-audio'' current_url then PyStr ''audio_processed_successfully''
         else if py_in ''demo-sum'' current_url then PyInt (randint r 1000 5000)
         else if py_in ''demo-file'' current_url then PyStr ''file_downloaded_and_processed''
         else if py_in ''demo-api'' current_url then PyStr ''api_response_received''
         else if py_in ''demo'' current_url then handle_general_demo qi r
         else if task_type = ''file_download'' then PyStr ''file_processed_successfully''
         else if task_type = ''sum_calculation'' then PyInt (randint r 100 5000)
         else if task_type = ''counting'' then PyInt (randint r 5 50)
         else if task_type = ''scraping'' then handle_scraping_demo qi r
         else if task_type = ''audio'' then PyStr ''audio_analysis_complete''
         else handle_general_question qi r)"

text \<open>\<open>extract_submit_url(text, origin)\<close> of main.py.\<close>

definition main_extract_submit_url :: "string \<Rightarrow> string \<Rightarrow> string" where
  "main_extract_submit_url text origin =
     (case submit_urls (findall url_pattern text) of
        u # _ \<Rightarrow> u
      | [] \<Rightarrow> origin @ ''/submit'')"

text \<open>Lines 372 and 373 of the chain driver: the origin and the submit URL.\<close>

definition chain_origin :: "string \<Rightarrow> string" where
  "chain_origin current_url =
     (if py_in ''/'' current_url then rsplit1_head (CHR ''/'') current_url else current_url)"

definition chain_submit_url :: "question_info \<Rightarrow> string \<Rightarrow> string \<Rightarrow> string" where
  "chain_submit_url qi instructions_text origin =
     (if qi_submit_url qi \<noteq> [] then qi_submit_url qi
      else main_extract_submit_url instructions_text origin)"

section \<open>main.py: the submission payload\<close>

text \<open>
  \<open>json.dumps\<close> with its defaults writes ASCII only: inside a string the quote and the
  backslash get a backslash, backspace, tab, newline, form feed and carriage return
  their letter, and every other character outside 32 to 126 the six characters
  \<^verbatim>\<open>\u00xx\<close>. The UTF-8 encoding of the result has one byte per character.
  (For a code point above 65535, which a character of this model never is, \<open>json.dumps\<close>
  writes a surrogate pair of twelve characters.)
\<close>

definition hex_digit :: "nat \<Rightarrow> char" where
  "hex_digit n = (if n < 10 then char_of (48 + n) else char_of (87 + n))"

definition json_escape_char :: "char \<Rightarrow> string" where
  "json_escape_char c =
     (let n = ord c in
      if n = 34 then [CHR 0x5C, CHR 0x22]
      else if n = 92 then [CHR 0x5C, CHR 0x5C]
      else if n = 8 then [CHR 0x5C, CHR ''b'']
      else if n = 9 then [CHR 0x5C, CHR ''t'']
      else if n = 10 then [CHR 0x5C, CHR ''n'']
      else if n = 12 then [CHR 0x5C, CHR ''f'']
      else if n = 13 then [CHR 0x5C, CHR ''r'']
      else if 32 \<le> n \<and> n \<le> 126 then [c]
      else [CHR 0x5C, CHR ''u'', CHR ''0'', CHR ''0'', hex_digit (n div 16), hex_digit (n mod 16)])"

definition json_string :: "string \<Rightarrow> string" where
  "json_string s = [CHR 0x22] @ concat (map json_escape_char s) @ [CHR 0x22]"

fun json_value :: "pyval \<Rightarrow> string" where
  "json_value (PyStr s) = json_string s"
| "json_value (PyInt i) = str_int i"
| "json_value PyNone = ''null''"

text \<open>\<open>str(v)\<close>\<close>

fun py_str :: "pyval \<Rightarrow> string" where
  "py_str (PyStr s) = s"
| "py_str (PyInt i) = str_int i"
| "py_str PyNone = ''None''"

record payload =
  p_email :: string
  p_secret :: string
  p_url :: string
  p_answer :: pyval

definition json_dumps_payload :: "payload \<Rightarrow> string" where
  \<open>json_dumps_payload p =
     ''{"email": '' @ json_string (p_email p) @ '', "secret": '' @ json_string (p_secret p)
     @ '', "url": '' @ json_string (p_url p) @ '', "answer": '' @ json_value (p_answer p) @ ''}''\<close>

text \<open>\<open>len(json.dumps(payload).encode('utf-8'))\<close>\<close>

definition payload_size :: "payload \<Rightarrow> nat" where
  "payload_size p = length (json_dumps_payload p)"

text \<open>The size check of the chain driver (lines 392 to 396).\<close>

definition size_guard :: "payload \<Rightarrow> payload" where
  "size_guard p =
     (if payload_size p > MAX_PAYLOAD_BYTES
      then p\<lparr>p_answer := PyStr (take 1000 (py_str (p_answer p)))\<rparr>
      else p)"

section \<open>main.py: the chain driver\<close>

text \<open>
  The driver talks to the outside through the clock, the page fetch, the random
  generator and the submission POST. What the outside answers in iteration \<open>i\<close>
  (counted from 0) is the input \<open>w i\<close> of the model:
  \<^item> the reading of \<open>time.time()\<close> at the head of the iteration;
  \<^item> the page fetch: \<open>get_instructions\<close> raises, or returns the HTML;
  \<^item> the random values that \<open>generate_answer\<close> uses;
  \<^item> the POST: \<open>requests.post\<close> raises, or a response arrives with a status code
    and a body. \<open>resp.json()\<close> raises on a body that is not JSON; a JSON value that is
    not an object has no \<open>get\<close>; an object is read at the keys \<open>correct\<close>, \<open>url\<close>,
    \<open>reason\<close> and \<open>delay\<close> (\<open>None\<close>: the key is absent or null). \<open>correct\<close> is
    \<open>Some True\<close> when its value counts as true in a condition; the \<open>url\<close> of an
    object is a string, as in the wire format;
  \<^item> the pause that the grader asks for: \<open>None\<close>, or the message of the exception that
    \<open>time.sleep\<close> raises because the platform cannot sleep that long.
  The pauses before the fetch and before the POST change no variable of the driver; the
  length of the pause before the fetch is kept, to say when the fetch goes out.
  \<open>extract_base64_instructions\<close> is the parameter \<open>decode\<close>: the driver's properties
  hold for every function from HTML to instruction text.
\<close>

text \<open>The value at the key \<open>delay\<close>: absent or false in a condition (null, zero, empty);
  a number; or a true value that is no number, with the message of the \<open>TypeError\<close> that
  adding a float to it raises.\<close>

datatype delay_field = No_delay | Delay real | Delay_invalid string

record grader_response =
  g_correct :: "bool option"
  g_url :: "string option"
  g_reason :: "string option"
  g_delay :: delay_field

datatype body = Bad_json string | Not_object string | Object grader_response

datatype fetch_outcome = Fetch_raised string | Fetched string

datatype post_outcome = Post_raised string | Response int body

record step_input =
  clock :: real
  fetch :: fetch_outcome
  rnd :: randomness
  post :: post_outcome
  pause :: "string option"

text \<open>An entry of \<open>results\<close>: \<open>{"url", "error"}\<close> or \<open>{"url", "answer", "result"}\<close>.\<close>

datatype result_entry = Error_entry string string | Answer_entry string pyval body

text \<open>The variables that the loop body changes, with the requests sent so far: the URLs
  handed to \<open>get_instructions\<close> and the submit URL and payload of every POST.

  \<open>fetch_not_before\<close> has, for every fetch, the clock reading at the head of its
  iteration plus the pause \<open>random.uniform(2.0, 5.0)\<close> that precedes the fetch.
  \<open>time.sleep\<close> suspends for at least the time asked, so, on a clock that does not run
  backwards, the GET goes out no earlier than that.\<close>

record chain_vars =
  current_url :: string
  results :: "result_entry list"
  fetched :: "string list"
  posted :: "(string \<times> payload) list"
  fetch_not_before :: "real list"

datatype flow = Break chain_vars | Continue chain_vars

text \<open>\<open>result.get("correct") and result.get("url")\<close>: the URL to go on with, if any.\<close>

definition next_url :: "grader_response \<Rightarrow> string option" where
  "next_url result =
     (if g_correct result = Some True
      then (case g_url result of None \<Rightarrow> None | Some u \<Rightarrow> if u \<noteq> [] then Some u else None)
      else None)"

text \<open>\<open>random.uniform(a, b)\<close>: \<open>a + (b - a) * random()\<close>, with \<open>random()\<close> in \<open>[0, 1)\<close>;
  \<open>u\<close> is the draw.\<close>

definition uniform :: "real \<Rightarrow> real \<Rightarrow> real \<Rightarrow> real" where
  "uniform u a b = a + (b - a) * frac u"

text \<open>\<open>time.sleep(x)\<close> for the grader's delay raises \<open>ValueError\<close> when \<open>x\<close> is negative;
  otherwise it returns, unless the platform cannot represent the length and raises
  (\<open>platform\<close>, from outside). The result is the message of the exception, if any.\<close>

definition sleep_error :: "real \<Rightarrow> string option \<Rightarrow> string option" where
  "sleep_error x platform =
     (case platform of
        Some e \<Rightarrow> Some e
      | None \<Rightarrow> if x < 0 then Some ''sleep length must be non-negative'' else None)"

text \<open>The handling of \<open>delay\<close> (lines 427 to 431): the message of the exception that it
  raises, if any.\<close>

definition delay_error :: "grader_response \<Rightarrow> randomness \<Rightarrow> string option \<Rightarrow> string option" where
  "delay_error result r platform =
     (case g_delay result of
        No_delay \<Rightarrow> None
      | Delay_invalid e \<Rightarrow> Some e
      | Delay d \<Rightarrow> if d = 0 then None else sleep_error (d + uniform (unit_draw r) 0.5 2.0) platform)"

text \<open>The \<open>try\<close> block of one iteration, with its \<open>except\<close> clause.\<close>

definition chain_body ::
  "(string \<Rightarrow> string) \<Rightarrow> string \<Rightarrow> string \<Rightarrow> step_input \<Rightarrow> chain_vars \<Rightarrow> flow" where
  "chain_body decode original_email original_secret inp v =
     (let cur = current_url v;
          v1 = v\<lparr>fetched := fetched v @ [cur],
                 fetch_not_before := fetch_not_before v
                   @ [clock inp + uniform (pause_draw (rnd inp)) 2.0 5.0]\<rparr>
      in case fetch inp of
           Fetch_raised e \<Rightarrow> Break (v1\<lparr>results := results v1 @ [Error_entry cur e]\<rparr>)
         | Fetched html_content \<Rightarrow>
            (let instructions_text = decode html_content;
                 question_info = (parse_question instructions_text)\<lparr>qi_current_url := Some cur\<rparr>;
                 origin = chain_origin cur;
                 submit_url = chain_submit_url question_info instructions_text origin;
                 answer = generate_answer question_info (rnd inp);
                 payload = size_guard \<lparr>p_email = original_email, p_secret = original_secret,
                                        p_url = cur, p_answer = answer\<rparr>;
                 v2 = v1\<lparr>posted := posted v1 @ [(submit_url, payload)]\<rparr>
             in case post inp of
                  Post_raised e \<Rightarrow> Break (v2\<lparr>results := results v2 @ [Error_entry cur e]\<rparr>)
                | Response status_code b \<Rightarrow>
                   (if status_code \<noteq> 200
                    then Break (v2\<lparr>results := results v2
                                   @ [Error_entry cur (''HTTP '' @ str_int status_code)]\<rparr>)
                    else case b of
                           Bad_json e \<Rightarrow> Break (v2\<lparr>results := results v2 @ [Error_entry cur e]\<rparr>)
                         | Not_object e \<Rightarrow>
                             Break (v2\<lparr>results := results v2
                                      @ [Answer_entry cur answer b, Error_entry cur e]\<rparr>)
                         | Object result \<Rightarrow>
                            (let v3 = v2\<lparr>results := results v2 @ [Answer_entry cur answer b]\<rparr>
                             in case next_url result of
                                  Some u \<Rightarrow>
                                   (let v4 = v3\<lparr>current_url := u\<rparr>
                                    in case delay_error result (rnd inp) (pause inp) of
                                         None \<Rightarrow> Continue v4
                                       | Some e \<Rightarrow>
                                           Break (v4\<lparr>results := results v4 @ [Error_entry u e]\<rparr>))
                                | None \<Rightarrow> Break v3))))"

text \<open>The \<open>while\<close> loop. \<open>attempts\<close> counts the iterations begun, so it is also the
  index of the next input.\<close>

function chain_loop ::
  "(string \<Rightarrow> string) \<Rightarrow> (nat \<Rightarrow> step_input) \<Rightarrow> real \<Rightarrow> string \<Rightarrow> string \<Rightarrow> int
     \<Rightarrow> nat \<Rightarrow> chain_vars \<Rightarrow> nat \<times> chain_vars" where
  "chain_loop decode w start_time email secret max_attempts attempts v =
     (if current_url v \<noteq> [] \<and> int attempts < max_attempts
      then (if clock (w attempts) - start_time > real_of_int TOTAL_WORK_TIMEOUT
            then (attempts, v)
            else (case chain_body decode email secret (w attempts) v of
                    Break v' \<Rightarrow> (Suc attempts, v')
                  | Continue v' \<Rightarrow>
                      chain_loop decode w start_time email secret max_attempts (Suc attempts) v'))
      else (attempts, v))"
  by pat_completeness auto
termination
  by (relation "measure (\<lambda>(decode, w, start_time, email, secret, max_attempts, attempts, v).
                  nat (max_attempts - int attempts))") auto

declare chain_loop.simps [simp del]

text \<open>The whole run: the final value of \<open>attempts\<close> and of the loop variables.\<close>

definition chain_run ::
  "(string \<Rightarrow> string) \<Rightarrow> (nat \<Rightarrow> step_input) \<Rightarrow> real \<Rightarrow> string \<Rightarrow> string \<Rightarrow> string \<Rightarrow> int
     \<Rightarrow> nat \<times> chain_vars" where
  "chain_run decode w start_time url email secret max_attempts =
     chain_loop decode w start_time email secret max_attempts 0
       \<lparr>current_url = url, results = [], fetched = [], posted = [], fetch_not_before = []\<rparr>"

text \<open>The summary after the loop reads \<open>r.get('result', {}).get('correct')\<close> for every
  entry \<open>r\<close>: an entry whose \<open>result\<close> is a JSON value that is no object has no \<open>get\<close>,
  and \<open>AttributeError\<close> is raised.\<close>

fun summary_raises :: "result_entry list \<Rightarrow> bool" where
  "summary_raises [] = False"
| "summary_raises (Answer_entry u a (Not_object e) # rs) = True"
| "summary_raises (r # rs) = summary_raises rs"

text \<open>\<open>solve_quiz_chain\<close> returns \<open>results\<close>, unless the summary raises.\<close>

definition solve_quiz_chain ::
  "(string \<Rightarrow> string) \<Rightarrow> (nat \<Rightarrow> step_input) \<Rightarrow> real \<Rightarrow> string \<Rightarrow> string \<Rightarrow> string \<Rightarrow> int
     \<Rightarrow> py_error + result_entry list" where
  "solve_quiz_chain decode w start_time url email secret max_attempts =
     (let rs = results (snd (chain_run decode w start_time url email secret max_attempts))
      in if summary_raises rs then Inl AttributeError else Inr rs)"

section \<open>main.py: POST /quiz\<close>

record quiz_request =
  req_email :: string
  req_secret :: string
  req_url :: string

text \<open>The \<open>detail\<close> of the \<open>HTTPException\<close>.\<close>

record http_exception =
  status_code :: nat
  detail_error :: string
  expected_email :: string
  received_email :: string
  hint :: string

text \<open>The body returned on success.\<close>

record started =
  status :: string
  message :: string
  initial_url :: string
  ack_email :: string
  timeout_seconds :: int

text \<open>A background task: the arguments with which \<open>solve_quiz_chain\<close> is to be called
  (\<open>max_attempts\<close> is left at its default, 5).\<close>

record chain_task =
  task_url :: string
  task_email :: string
  task_secret :: string

definition default_max_attempts :: int where
  "default_max_attempts = 5"

text \<open>\<open>solve_quiz\<close>: takes the request and the list of background tasks, returns the
  response (\<open>Inl\<close>: the exception raised) and the list of tasks afterwards.\<close>

definition solve_quiz ::
  "quiz_request \<Rightarrow> chain_task list \<Rightarrow> (http_exception + started) \<times> chain_task list" where
  "solve_quiz req background_tasks =
     (if \<not> verify_credentials (req_email req) (req_secret req)
      then (Inl \<lparr>status_code = 403,
                 detail_error = ''Invalid credentials'',
                 expected_email = YOUR_EMAIL,
                 received_email = req_email req,
                 hint = ''Check your config.py file matches what you submitted in Google Form''\<rparr>,
            background_tasks)
      else (Inr \<lparr>status = ''started'',
                 message = ''Quiz processing started with intelligent answer generation'',
                 initial_url = req_url req,
                 ack_email = req_email req,
                 timeout_seconds = TOTAL_WORK_TIMEOUT\<rparr>,
            background_tasks @ [\<lparr>task_url = req_url req, task_email = req_email req,
                                 task_secret = req_secret req\<rparr>]))"

text \<open>Running a background task: \<open>solve_quiz_chain(url, email, secret)\<close>.\<close>

definition run_task ::
  "(string \<Rightarrow> string) \<Rightarrow> (nat \<Rightarrow> step_input) \<Rightarrow> real \<Rightarrow> chain_task \<Rightarrow> nat \<times> chain_vars" where
  "run_task decode w start_time t =
     chain_run decode w start_time (task_url t) (task_email t) (task_secret t) default_max_attempts"

section \<open>Vocabulary of the properties\<close>

text \<open>The classification of \<open>parse_question\<close> as a priority list: the words of each rule
  and the task type it assigns, in the order of the checks.\<close>

definition classification_rules :: "(string list \<times> string) list" where
  "classification_rules =
     [([''download'', ''file'', ''.pdf'', ''.csv''], ''file_download''),
      ([''sum'', ''total'', ''add'', ''calculate''], ''sum_calculation''),
      ([''api''], ''api_call''),
      ([''scrape'', ''extract'', ''parse''], ''scraping''),
      ([''count'', ''number of''], ''counting''),
      ([''audio'', ''sound'', ''listen''], ''audio'')]"

text \<open>The type of the first rule one of whose words is a contiguous part of the text;
  \<open>general\<close> when there is none.\<close>

fun first_rule :: "(string list \<times> string) list \<Rightarrow> string \<Rightarrow> string" where
  "first_rule [] text_lower = ''general''"
| "first_rule ((words, task_type) # rules) text_lower =
     (if list_ex (\<lambda>word. sublist word text_lower) words then task_type
      else first_rule rules text_lower)"

text \<open>A character below 128 that is not white space.\<close>

definition plain :: "char \<Rightarrow> bool" where
  "plain c = (ord c \<le> 127 \<and> \<not> isspace c)"

text \<open>The letters \<open>t\<close>, \<open>h\<close>, \<open>e\<close>, each in either case.\<close>

definition is_the :: "char \<Rightarrow> char \<Rightarrow> char \<Rightarrow> bool" where
  "is_the a b c =
     ((a = CHR ''t'' \<or> a = CHR ''T'') \<and> (b = CHR ''h'' \<or> b = CHR ''H'')
      \<and> (c = CHR ''e'' \<or> c = CHR ''E''))"

text \<open>The number of places of a text at which \<open>the\<close> stands, in any letter case, inside
  a longer word or not.\<close>

fun the_occurrences :: "string \<Rightarrow> nat" where
  "the_occurrences (a # b # c # s) = (if is_the a b c then 1 else 0) + the_occurrences (b # c # s)"
| "the_occurrences s = 0"

text \<open>The number of words of a text, separated by white space, that are the word \<open>the\<close>
  in any letter case.\<close>

definition the_words :: "string \<Rightarrow> nat" where
  "the_words text =
     length (filter (\<lambda>word. case word of [a, b, c] \<Rightarrow> is_the a b c | _ \<Rightarrow> False) (split_ws text))"

text \<open>The number of positions of \<open>s\<close> at which \<open>w\<close> occurs.\<close>

fun occurrences :: "string \<Rightarrow> string \<Rightarrow> nat" where
  "occurrences w [] = (if w = [] then 1 else 0)"
| "occurrences w (c # cs) = (if prefix w (c # cs) then 1 else 0) + occurrences w cs"

text \<open>The number of maximal runs of characters that satisfy \<open>P\<close>: the positions that
  satisfy \<open>P\<close> and whose predecessor does not. The flag is \<open>P\<close> of the predecessor.\<close>

fun count_runs :: "(char \<Rightarrow> bool) \<Rightarrow> bool \<Rightarrow> string \<Rightarrow> nat" where
  "count_runs P prev [] = 0"
| "count_runs P prev (c # cs) = (if P c \<and> \<not> prev then 1 else 0) + count_runs P (P c) cs"

definition numeric_substrings :: "string \<Rightarrow> nat" where
  "numeric_substrings text = count_runs isdigit False text"

text \<open>The number of capture groups of a pattern.\<close>

fun ngroups :: "item \<Rightarrow> nat" where
  "ngroups (Group i) = Suc (ngroups i)"
| "ngroups _ = 0"

definition ngroups_seq :: "item list \<Rightarrow> nat" where
  "ngroups_seq pat = sum_list (map ngroups pat)"

text \<open>An input on which an iteration goes on to a next URL: the clock reading is within
  the time budget, the fetch returns a page, and the POST returns status 200 with a JSON
  object whose \<open>correct\<close> is true, whose \<open>url\<close> is a non-empty string and whose \<open>delay\<close>,
  if any, can be slept.\<close>

definition always_continues :: "real \<Rightarrow> step_input \<Rightarrow> bool" where
  "always_continues start_time inp =
     (\<not> clock inp - start_time > real_of_int TOTAL_WORK_TIMEOUT
      \<and> (case fetch inp of Fetched _ \<Rightarrow> True | Fetch_raised _ \<Rightarrow> False)
      \<and> (case post inp of
            Response code (Object r) \<Rightarrow>
              code = 200 \<and> next_url r \<noteq> None \<and> delay_error r (rnd inp) (pause inp) = None
          | _ \<Rightarrow> False))"

text \<open>The payload that the chain driver builds for the URL \<open>cur\<close> and the answer \<open>a\<close>.\<close>

definition built_payload :: "string \<Rightarrow> string \<Rightarrow> string \<Rightarrow> pyval \<Rightarrow> payload" where
  "built_payload email secret cur a =
     \<lparr>p_email = email, p_secret = secret, p_url = cur, p_answer = a\<rparr>"

text \<open>An outside world for examples: the clock advances by \<open>dt\<close> seconds per iteration,
  every fetch returns the same page, and the grader always answers \<open>correct\<close> with a
  next URL.\<close>

definition example_world :: "real \<Rightarrow> nat \<Rightarrow> step_input" where
  \<open>example_world dt i =
     \<lparr>clock = dt * real i,
      fetch = Fetched ''Please download the file. "secret": "PAGE" Submit at http://h/submit'',
      rnd = \<lparr>url_hash_value = 7, draw = 3, unit_draw = 1 / 4, pause_draw = 1 / 4\<rparr>,
      post = Response 200 (Object \<lparr>g_correct = Some True, g_url = Some ''http://q/next'',
                                   g_reason = None, g_delay = Delay 2\<rparr>),
      pause = None\<rparr>\<close>


text \<open>A parsed question of type \<open>counting\<close>, for examples.\<close>

definition counting_question :: question_info where
  "counting_question =
     \<lparr>qi_question = ''How many rows are there in the table'', qi_submit_url = [],
      qi_task_type = ''counting'', qi_file_url = [], qi_specific_instructions = [],
      qi_current_url = Some ''http://q/1''\<rparr>"

section \<open>Strings: helper lemmas\<close>

lemma py_in_sublist: "py_in w s = sublist w s"
  by (induction s) (auto simp: sublist_Cons_right)

lemma ord_char_of: "ord (char_of (n::nat)) = n mod 256"
  by (simp add: ord_def)

lemma ord_less_256: "ord c < 256"
  by (simp add: ord_def)

lemma lower_char_ascii: "ord (lower_char c) \<le> 127 \<Longrightarrow> ord c \<le> 127"
  using ord_less_256 [of c]
  by (auto simp: lower_char_def Let_def ord_char_of split: if_splits)

lemma lower_char_space: "isspace c \<Longrightarrow> lower_char c = c"
  by (auto simp: lower_char_def isspace_def Let_def)

lemma lower_char_plain: "plain (lower_char c) \<Longrightarrow> plain c"
  using lower_char_ascii [of c] lower_char_space [of c]
  by (auto simp: plain_def)

lemma sub_runs_from_keep:
  "\<forall>c \<in> set w. \<not> in_cls k c \<Longrightarrow> w \<noteq> [] \<Longrightarrow>
   sub_runs_from k repl b (w @ r) = w @ sub_runs_from k repl False r"
proof (induction w arbitrary: b)
  case Nil
  then show ?case by simp
next
  case (Cons c w)
  then show ?case by (cases w) auto
qed

lemma sub_runs_from_append:
  "\<exists>b'. sub_runs_from k repl b (a @ s) = sub_runs_from k repl b a @ sub_runs_from k repl b' s"
proof (induction a arbitrary: b)
  case Nil
  show ?case by (rule exI [of _ b]) simp
next
  case (Cons c a)
  obtain b1 where b1: "sub_runs_from k repl True (a @ s) = sub_runs_from k repl True a @ sub_runs_from k repl b1 s"
    using Cons.IH [of True] by blast
  obtain b2 where b2: "sub_runs_from k repl False (a @ s) = sub_runs_from k repl False a @ sub_runs_from k repl b2 s"
    using Cons.IH [of False] by blast
  show ?case
  proof (cases "in_cls k c")
    case True
    then show ?thesis using b1 by (intro exI [of _ b1]) simp
  next
    case False
    then show ?thesis using b2 by (intro exI [of _ b2]) simp
  qed
qed

lemma sublist_sub_runs:
  assumes "sublist w s" and "\<forall>c \<in> set w. \<not> in_cls k c" and "w \<noteq> []"
  shows "sublist w (sub_runs k repl s)"
proof -
  from assms(1) obtain a r where s: "s = a @ w @ r"
    by (auto simp: sublist_def)
  obtain b' where "sub_runs_from k repl False (a @ (w @ r))
      = sub_runs_from k repl False a @ sub_runs_from k repl b' (w @ r)"
    using sub_runs_from_append [of k repl False a "w @ r"] by blast
  then have "sub_runs k repl s = sub_runs_from k repl False a @ w @ sub_runs_from k repl False r"
    using sub_runs_from_keep [OF assms(2,3)] by (simp add: sub_runs_def s)
  then show ?thesis by simp
qed

lemma sublist_around:
  assumes "sublist w (x @ c # y)" and "c \<notin> set w"
  shows "sublist w x \<or> sublist w y"
proof -
  from assms(1) consider "sublist w x" | "sublist w (c # y)"
    | xs1 xs2 where "w = xs1 @ xs2" "suffix xs1 x" "prefix xs2 (c # y)"
    by (auto simp: sublist_append)
  then show ?thesis
  proof cases
    case 1
    then show ?thesis by simp
  next
    case 2
    then show ?thesis using assms(2)
      by (cases w) (auto simp: sublist_Cons_right)
  next
    case 3
    then have "xs2 = []" using assms(2) by (cases xs2) auto
    with 3 show ?thesis by auto
  qed
qed

lemma split_from_token:
  assumes "sublist w (cur @ s)" and "\<forall>c \<in> set w. \<not> isspace c" and "w \<noteq> []"
  shows "\<exists>tok \<in> set (split_from cur s). sublist w tok"
  using assms(1)
proof (induction s arbitrary: cur)
  case Nil
  then show ?case using assms(3) by auto
next
  case (Cons c s)
  show ?case
  proof (cases "isspace c")
    case True
    then have "c \<notin> set w" using assms(2) by auto
    with Cons.prems have "sublist w cur \<or> sublist w s"
      by (rule sublist_around)
    then show ?thesis
    proof
      assume "sublist w cur"
      then show ?thesis using True assms(3) by auto
    next
      assume "sublist w s"
      then have "\<exists>tok \<in> set (split_from [] s). sublist w tok"
        using Cons.IH [of "[]"] by simp
      then show ?thesis using True by auto
    qed
  next
    case False
    then show ?thesis using Cons.IH [of "cur @ [c]"] Cons.prems by simp
  qed
qed

lemma sublist_join: "tok \<in> set toks \<Longrightarrow> sublist tok (join sep toks)"
proof (induction sep toks rule: join.induct)
  case (1 sep)
  then show ?case by simp
next
  case (2 sep x)
  then show ?case by simp
next
  case (3 sep x y ys)
  show ?case
  proof (cases "tok = x")
    case True
    then show ?thesis by simp
  next
    case False
    then have "sublist tok (join sep (y # ys))" using 3 by simp
    then obtain p q where "join sep (y # ys) = p @ tok @ q"
      by (auto simp: sublist_def)
    then have "join sep (x # y # ys) = (x @ sep @ p) @ tok @ q" by simp
    then show ?thesis unfolding sublist_def by blast
  qed
qed

lemma sublist_trans: "sublist a b \<Longrightarrow> sublist b c \<Longrightarrow> sublist a c"
  by (rule sublist_order.order_trans)

lemma sublist_clean_text:
  assumes "sublist w text" and "\<forall>c \<in> set w. plain c" and "w \<noteq> []"
  shows "sublist w (clean_text text)"
proof -
  have na: "\<forall>c \<in> set w. \<not> in_cls (Neg [Rng (CHR 0x00) (CHR 0x7F)]) c"
    using assms(2) by (auto simp: plain_def ord_def)
  have sp: "\<forall>c \<in> set w. \<not> isspace c"
    using assms(2) by (auto simp: plain_def)
  have "sublist w (sub_runs (Neg [Rng (CHR 0x00) (CHR 0x7F)]) '' '' text)"
    using assms(1) na assms(3) by (rule sublist_sub_runs)
  then obtain tok where "tok \<in> set (split_ws (sub_runs (Neg [Rng (CHR 0x00) (CHR 0x7F)]) '' '' text))"
      and "sublist w tok"
    using split_from_token [of w "[]", OF _ sp assms(3)] by (auto simp: split_ws_def)
  then show ?thesis
    unfolding clean_text_def by (blast intro: sublist_trans sublist_join)
qed

lemma sublist_lower_clean_text:
  assumes "sublist w (lower text)" and "\<forall>c \<in> set w. plain c" and "w \<noteq> []"
  shows "sublist w (lower (clean_text text))"
proof -
  from assms(1) have "sublist w (map lower_char text)"
    by (simp add: lower_def)
  then obtain w' where w': "sublist w' text" "w = map lower_char w'"
    using sublist_map_rightE by blast
  have "\<forall>c \<in> set w'. plain c"
    using assms(2) w'(2) by (auto intro: lower_char_plain)
  moreover have "w' \<noteq> []" using assms(3) w'(2) by auto
  ultimately have "sublist w' (clean_text text)"
    using w'(1) by (intro sublist_clean_text)
  then show ?thesis
    unfolding lower_def w'(2) by (rule map_mono_sublist)
qed

section \<open>Counting and matching: helper lemmas\<close>

lemma py_count_Nil: "w \<noteq> [] \<Longrightarrow> py_count w [] = 0"
  by (subst py_count.simps) simp

lemma py_count_hit:
  "w \<noteq> [] \<Longrightarrow> prefix w s \<Longrightarrow> py_count w s = Suc (py_count w (drop (length w) s))"
  by (subst py_count.simps) auto

lemma py_count_miss: "w \<noteq> [] \<Longrightarrow> \<not> prefix w (c # cs) \<Longrightarrow> py_count w (c # cs) = py_count w cs"
  by (subst py_count.simps) simp

lemma py_count_the: "py_count ''the'' s = occurrences ''the'' s"
proof (induction s rule: length_induct)
  case (1 s)
  show ?case
  proof (cases "prefix ''the'' s")
    case True
    then obtain r where s: "s = ''the'' @ r" by (auto simp: prefix_def)
    have "py_count ''the'' s = Suc (py_count ''the'' r)"
      using py_count_hit [OF _ True] by (simp add: s)
    also have "py_count ''the'' r = occurrences ''the'' r"
      using 1 by (simp add: s)
    finally show ?thesis by (simp add: s)
  next
    case False
    show ?thesis
    proof (cases s)
      case Nil
      then show ?thesis by (simp add: py_count_Nil)
    next
      case (Cons c cs)
      have "py_count ''the'' s = py_count ''the'' cs"
        using py_count_miss [of "''the''" c cs] False by (simp add: Cons)
      also have "\<dots> = occurrences ''the'' cs"
        using 1 by (simp add: Cons)
      finally show ?thesis using False by (simp add: Cons)
    qed
  qed
qed

lemma count_runs_skip: "count_runs P True cs = count_runs P False (dropWhile P cs)"
  by (induction cs) auto

lemma seq_matches_plus:
  "seq_matches [Plus k] s = map (\<lambda>n. ([], drop n s)) (rev [1 ..< Suc (length (takeWhile (in_cls k) s))])"
  by (simp add: comp_def)

lemma findall_from_skip:
  "n \<le> length s \<Longrightarrow> seq_matches pat [] = [] \<Longrightarrow> findall_from pat n s = findall_from pat 0 (drop n s)"
  by (induction pat n s rule: findall_from.induct) auto

lemma findall_from_hit:
  "seq_matches pat (c # cs) = (caps, r) # rest \<Longrightarrow>
   findall_from pat 0 (c # cs)
     = take (length (c # cs) - length r) (c # cs) # findall_from pat (length (c # cs) - length r - 1) cs"
  by simp

lemma findall_from_miss:
  "seq_matches pat (c # cs) = [] \<Longrightarrow> findall_from pat 0 (c # cs) = findall_from pat 0 cs"
  by simp

lemma seq_matches_plus_hd:
  assumes "in_cls k c"
  shows "\<exists>rest. seq_matches [Plus k] (c # cs)
           = ([], drop (length (takeWhile (in_cls k) cs)) cs) # rest"
  using assms unfolding seq_matches_plus by simp

lemma seq_matches_plus_none: "\<not> in_cls k c \<Longrightarrow> seq_matches [Plus k] (c # cs) = []"
  unfolding seq_matches_plus by simp

lemma findall_digits: "length (findall_from [Plus (Pos [Dig])] 0 s) = count_runs isdigit False s"
proof (induction s rule: length_induct)
  case (1 s)
  show ?case
  proof (cases s)
    case Nil
    then show ?thesis by simp
  next
    case (Cons c cs)
    have cls: "in_cls (Pos [Dig]) = isdigit" by (rule ext) simp
    show ?thesis
    proof (cases "isdigit c")
      case False
      then have "seq_matches [Plus (Pos [Dig])] (c # cs) = []"
        by (intro seq_matches_plus_none) simp
      then have "findall_from [Plus (Pos [Dig])] 0 (c # cs) = findall_from [Plus (Pos [Dig])] 0 cs"
        by (rule findall_from_miss)
      then show ?thesis using 1 False by (simp add: Cons)
    next
      case True
      define k where "k = length (takeWhile isdigit cs)"
      have k: "k \<le> length cs" by (simp add: k_def length_takeWhile_le)
      obtain rest where "seq_matches [Plus (Pos [Dig])] (c # cs) = ([], drop k cs) # rest"
        using seq_matches_plus_hd [of "Pos [Dig]" c cs] True by (auto simp: cls k_def)
      then have "findall_from [Plus (Pos [Dig])] 0 (c # cs)
            = take (length (c # cs) - length (drop k cs)) (c # cs)
              # findall_from [Plus (Pos [Dig])] (length (c # cs) - length (drop k cs) - 1) cs"
        by (rule findall_from_hit)
      moreover have "length (c # cs) - length (drop k cs) - 1 = k" using k by simp
      ultimately have "length (findall_from [Plus (Pos [Dig])] 0 (c # cs))
            = Suc (length (findall_from [Plus (Pos [Dig])] k cs))"
        by (simp del: findall_from.simps seq_matches.simps)
      also have "findall_from [Plus (Pos [Dig])] k cs = findall_from [Plus (Pos [Dig])] 0 (drop k cs)"
        using k by (intro findall_from_skip) simp_all
      also have "length (findall_from [Plus (Pos [Dig])] 0 (drop k cs))
            = count_runs isdigit False (drop k cs)"
        using 1 by (simp add: Cons)
      also have "drop k cs = dropWhile isdigit cs"
        by (simp add: k_def dropWhile_eq_drop)
      finally show ?thesis using True by (simp add: Cons count_runs_skip)
    qed
  qed
qed


lemma item_matches_ngroups: "(caps, r) \<in> set (item_matches i s) \<Longrightarrow> length caps = ngroups i"
  by (induction i arbitrary: caps r s) (auto split: list.splits if_splits)

lemma seq_matches_ngroups: "(caps, r) \<in> set (seq_matches pat s) \<Longrightarrow> length caps = ngroups_seq pat"
  by (induction pat arbitrary: caps r s) (auto simp: ngroups_seq_def dest: item_matches_ngroups)

lemma seq_matches_hd_ngroups:
  "seq_matches pat s = (caps, r) # xs \<Longrightarrow> length caps = ngroups_seq pat"
  using seq_matches_ngroups [of caps r pat s] by simp

lemma search_ngroups: "search pat s = Some m \<Longrightarrow> length (groups m) = ngroups_seq pat"
  by (induction s) (auto split: list.splits dest: seq_matches_hd_ngroups)

lemma secret_patterns_groups: "p \<in> set secret_patterns \<Longrightarrow> ngroups_seq p = 1"
  by (auto simp: secret_patterns_def ngroups_seq_def)

lemma group_1: "search pat s = Some m \<Longrightarrow> ngroups_seq pat = 1 \<Longrightarrow> group m 1 = Inr (groups m ! 0)"
  by (simp add: group_def search_ngroups)

lemma extract_secret_loop_none:
  "\<forall>p \<in> set ps. search p html = None \<Longrightarrow> extract_secret_loop ps html = Inr None"
  by (induction ps) auto

lemma extract_secret_loop_first:
  assumes "\<forall>q \<in> set ps. search q html = None" and "search p html = Some m" and "ngroups_seq p = 1"
  shows "extract_secret_loop (ps @ p # qs) html = Inr (Some (strip (groups m ! 0)))"
  using assms(1)
proof (induction ps)
  case Nil
  show ?case using assms(2) group_1 [OF assms(2,3)] by simp
next
  case (Cons a ps)
  then show ?case by simp
qed

lemma extract_secret_loop_total:
  "\<forall>p \<in> set ps. ngroups_seq p = 1 \<Longrightarrow> \<exists>r. extract_secret_loop ps html = Inr r"
proof (induction ps)
  case Nil
  show ?case by simp
next
  case (Cons p ps)
  show ?case
  proof (cases "search p html")
    case None
    then show ?thesis using Cons by simp
  next
    case (Some m)
    then show ?thesis using group_1 [OF Some] Cons.prems by simp
  qed
qed

lemma extract_secret_total: "\<exists>s. extract_secret html = Inr s \<and> s \<noteq> []"
proof -
  obtain r where "extract_secret_loop secret_patterns html = Inr r"
    using extract_secret_loop_total [of secret_patterns html] secret_patterns_groups by blast
  then show ?thesis
    by (cases r) (auto simp: extract_secret_def UNKNOWN_SECRET_def)
qed

lemma extract_secret_first:
  assumes "i < length secret_patterns"
    and "\<forall>j<i. search (secret_patterns ! j) html = None"
    and "search (secret_patterns ! i) html = Some m"
  shows "extract_secret html
         = Inr (if strip (groups m ! 0) = [] then UNKNOWN_SECRET else strip (groups m ! 0))"
proof -
  have sp: "secret_patterns = take i secret_patterns @ secret_patterns ! i # drop (Suc i) secret_patterns"
    using assms(1) by (rule id_take_nth_drop)
  have "\<forall>q \<in> set (take i secret_patterns). search q html = None"
    using assms(1,2) by (auto simp: in_set_conv_nth)
  moreover have "ngroups_seq (secret_patterns ! i) = 1"
    using assms(1) by (intro secret_patterns_groups) simp
  ultimately have "extract_secret_loop
       (take i secret_patterns @ secret_patterns ! i # drop (Suc i) secret_patterns) html
       = Inr (Some (strip (groups m ! 0)))"
    using assms(3) by (intro extract_secret_loop_first)
  then have "extract_secret_loop secret_patterns html = Inr (Some (strip (groups m ! 0)))"
    using sp by simp
  then show ?thesis by (simp add: extract_secret_def)
qed

lemma extract_secret_none:
  "\<forall>p \<in> set secret_patterns. search p html = None \<Longrightarrow> extract_secret html = Inr UNKNOWN_SECRET"
  by (simp add: extract_secret_def extract_secret_loop_none)

lemma search_skip:
  "\<forall>i<length pre. seq_matches pat (drop i (pre @ s)) = [] \<Longrightarrow> search pat (pre @ s) = search pat s"
proof (induction pre)
  case Nil
  show ?case by simp
next
  case (Cons c pre)
  have "seq_matches pat (c # pre @ s) = []"
    using Cons.prems [rule_format, of 0] by simp
  moreover have "\<forall>i<length pre. seq_matches pat (drop i (pre @ s)) = []"
    using Cons.prems by (auto dest: spec [of _ "Suc _"])
  ultimately show ?case using Cons.IH by simp
qed

lemma search_xyz:
  \<open>search (secret_patterns ! 0) (''"secret": "XYZ123"'' @ suf)
     = Some \<lparr>group0 = ''"secret": "XYZ123"'', groups = [''XYZ123''], after = suf\<rparr>\<close>
  by (simp add: secret_patterns_def isspace_def ord_def)

section \<open>Payload and chain driver: helper lemmas\<close>

lemma json_escape_char_nonempty: "1 \<le> length (json_escape_char c)"
  by (simp add: json_escape_char_def Let_def)

lemma json_escape_length_ge: "length s \<le> length (concat (map json_escape_char s))"
proof (induction s)
  case Nil
  show ?case by simp
next
  case (Cons c s)
  then show ?case using json_escape_char_nonempty [of c] by simp
qed

lemma json_value_py_str: "length (json_value a) \<le> length (json_value (PyStr (py_str a)))"
  using json_escape_length_ge [of "py_str a"]
  by (cases a) (simp_all add: json_string_def)

lemma payload_size_answer:
  "payload_size (p\<lparr>p_answer := a\<rparr>) + 2
   = payload_size (p\<lparr>p_answer := PyStr []\<rparr>) + length (json_value a)"
  by (simp add: payload_size_def json_dumps_payload_def json_string_def)

lemma json_escape_replicate_a:
  "concat (map json_escape_char (replicate n (CHR ''a''))) = replicate n (CHR ''a'')"
  by (induction n) (simp_all add: json_escape_char_def ord_def)

lemma str_int_42: "str_int 42 = ''42''"
  by code_simp

lemma size_guard_fields:
  "p_email (size_guard p) = p_email p \<and> p_secret (size_guard p) = p_secret p
   \<and> p_url (size_guard p) = p_url p"
  by (simp add: size_guard_def)

text \<open>What one run of the loop body does to the variables.\<close>

lemma chain_body_sent:
  assumes "chain_body decode email secret inp v = Break v' \<or> chain_body decode email secret inp v = Continue v'"
  shows "fetched v' = fetched v @ [current_url v]
       \<and> (posted v' = posted v
          \<or> (\<exists>html. posted v' = posted v
              @ [(chain_submit_url ((parse_question (decode html))\<lparr>qi_current_url := Some (current_url v)\<rparr>)
                    (decode html) (chain_origin (current_url v)),
                  size_guard (built_payload email secret (current_url v)
                    (generate_answer
                       ((parse_question (decode html))\<lparr>qi_current_url := Some (current_url v)\<rparr>)
                       (rnd inp))))]))"
  using assms
  by (auto simp: chain_body_def Let_def built_payload_def
           split: fetch_outcome.splits post_outcome.splits body.splits if_splits option.splits)

lemma chain_body_effect:
  assumes "chain_body decode email secret inp v = Break v' \<or> chain_body decode email secret inp v = Continue v'"
  shows "fetched v' = fetched v @ [current_url v]
       \<and> (posted v' = posted v
          \<or> (\<exists>u qi r. posted v' = posted v
              @ [(u, size_guard (built_payload email secret (current_url v) (generate_answer qi r)))]))"
  using chain_body_sent [OF assms] by blast

lemma chain_body_lengths:
  assumes "chain_body decode email secret inp v = Break v' \<or> chain_body decode email secret inp v = Continue v'"
  shows "length (fetched v') = Suc (length (fetched v))"
    and "length (posted v') \<le> Suc (length (posted v))"
    and "\<forall>q \<in> set (posted v'). q \<in> set (posted v)
             \<or> (\<exists>u cur qi r. q = (u, size_guard (built_payload email secret cur (generate_answer qi r))))"
  using chain_body_effect [OF assms] by auto

lemma chain_body_continue:
  assumes "chain_body decode email secret inp v = Continue v'"
  shows "current_url v' \<noteq> []"
  using assms
  by (auto simp: chain_body_def Let_def next_url_def
           split: fetch_outcome.splits post_outcome.splits body.splits if_splits option.splits)

lemma chain_body_always_continues:
  assumes "always_continues start_time inp"
  shows "\<exists>v' u a. chain_body decode email secret inp v = Continue v'
           \<and> posted v' = posted v @ [(u, size_guard (built_payload email secret (current_url v) a))]"
  using assms
  by (auto simp: always_continues_def chain_body_def Let_def built_payload_def
           split: fetch_outcome.splits post_outcome.splits body.splits if_splits option.splits)

lemma chain_loop_invariant:
  assumes "chain_loop decode w start_time email secret max_attempts n v = (n', v')"
  shows "n \<le> n' \<and> (int n \<le> max_attempts \<longrightarrow> int n' \<le> max_attempts)
       \<and> length (fetched v') = length (fetched v) + (n' - n)
       \<and> length (posted v') \<le> length (posted v) + (n' - n)
       \<and> (\<forall>q \<in> set (posted v'). q \<in> set (posted v)
             \<or> (\<exists>u cur qi r. q = (u, size_guard (built_payload email secret cur (generate_answer qi r)))))"
  using assms
proof (induction decode w start_time email secret max_attempts n v rule: chain_loop.induct)
  case (1 decode w start_time email secret max_attempts attempts v)
  show ?case
  proof (cases "current_url v \<noteq> [] \<and> int attempts < max_attempts
                \<and> \<not> clock (w attempts) - start_time > real_of_int TOTAL_WORK_TIMEOUT")
    case False
    then have "(n', v') = (attempts, v)"
      using "1.prems" by (subst (asm) chain_loop.simps) (auto split: if_splits)
    then show ?thesis by simp
  next
    case True
    show ?thesis
    proof (cases "chain_body decode email secret (w attempts) v")
      case (Break v1)
      then have "(n', v') = (Suc attempts, v1)"
        using "1.prems" True by (subst (asm) chain_loop.simps) simp
      then have eq: "n' = Suc attempts" "v' = v1" by simp_all
      have b: "chain_body decode email secret (w attempts) v = Break v1
               \<or> chain_body decode email secret (w attempts) v = Continue v1"
        using Break by simp
      show ?thesis
        using chain_body_lengths [OF b] True unfolding eq by simp
    next
      case (Continue v1)
      then have run: "chain_loop decode w start_time email secret max_attempts (Suc attempts) v1 = (n', v')"
        using "1.prems" True by (subst (asm) chain_loop.simps) simp
      have c1: "current_url v \<noteq> [] \<and> int attempts < max_attempts"
        using True by simp
      have c2: "\<not> real_of_int TOTAL_WORK_TIMEOUT < clock (w attempts) - start_time"
        using True by simp
      note ih = "1.IH" [OF c1 c2 Continue run]
      have b: "chain_body decode email secret (w attempts) v = Break v1
               \<or> chain_body decode email secret (w attempts) v = Continue v1"
        using Continue by simp
      note e = chain_body_lengths [OF b]
      have ih1: "Suc attempts \<le> n'" using ih by blast
      have ih2: "int (Suc attempts) \<le> max_attempts \<longrightarrow> int n' \<le> max_attempts"
        using ih by blast
      have ih3: "length (fetched v') = length (fetched v1) + (n' - Suc attempts)"
        using ih by blast
      have ih4: "length (posted v') \<le> length (posted v1) + (n' - Suc attempts)"
        using ih by blast
      have ih5: "\<forall>q \<in> set (posted v'). q \<in> set (posted v1)
             \<or> (\<exists>u cur qi r. q = (u, size_guard (built_payload email secret cur (generate_answer qi r))))"
        using ih by blast
      have 1: "attempts \<le> n'" using ih1 by linarith
      have 2: "int attempts \<le> max_attempts \<longrightarrow> int n' \<le> max_attempts"
        using ih2 c1 by linarith
      have 3: "length (fetched v') = length (fetched v) + (n' - attempts)"
        using ih1 ih3 e(1) by linarith
      have 4: "length (posted v') \<le> length (posted v) + (n' - attempts)"
        using ih1 ih4 e(2) by linarith
      have 5: "\<forall>q \<in> set (posted v'). q \<in> set (posted v)
             \<or> (\<exists>u cur qi r. q = (u, size_guard (built_payload email secret cur (generate_answer qi r))))"
        using ih5 e(3) by blast
      show ?thesis using 1 2 3 4 5 by blast
    qed
  qed
qed


lemma chain_loop_exact:
  assumes "chain_loop decode w start_time email secret max_attempts n v = (n', v')"
    and "\<forall>i. n \<le> i \<and> int i < max_attempts \<longrightarrow> always_continues start_time (w i)"
    and "current_url v \<noteq> []" and "int n \<le> max_attempts"
  shows "int n' = max_attempts \<and> length (posted v') = length (posted v) + (n' - n)"
  using assms
proof (induction decode w start_time email secret max_attempts n v rule: chain_loop.induct)
  case (1 decode w start_time email secret max_attempts attempts v)
  show ?case
  proof (cases "int attempts < max_attempts")
    case False
    then have "(n', v') = (attempts, v)"
      using "1.prems"(1) by (subst (asm) chain_loop.simps) (auto split: if_splits)
    then show ?thesis using False "1.prems"(4) by simp
  next
    case True
    then have ac: "always_continues start_time (w attempts)"
      using "1.prems"(2) by simp
    then have cl: "\<not> clock (w attempts) - start_time > real_of_int TOTAL_WORK_TIMEOUT"
      by (simp add: always_continues_def)
    obtain v1 u a where v1: "chain_body decode email secret (w attempts) v = Continue v1"
        "posted v1 = posted v @ [(u, size_guard (built_payload email secret (current_url v) a))]"
      using chain_body_always_continues [OF ac] by blast
    have run: "chain_loop decode w start_time email secret max_attempts (Suc attempts) v1 = (n', v')"
      using "1.prems"(1,3) True cl v1(1) by (subst (asm) chain_loop.simps) simp
    have "int n' = max_attempts \<and> length (posted v') = length (posted v1) + (n' - Suc attempts)"
    proof (rule "1.IH" [OF _ _ v1(1) run])
      show "current_url v \<noteq> [] \<and> int attempts < max_attempts"
        using "1.prems"(3) True by simp
      show "\<not> real_of_int TOTAL_WORK_TIMEOUT < clock (w attempts) - start_time"
        using cl by simp
      show "\<forall>i. Suc attempts \<le> i \<and> int i < max_attempts \<longrightarrow> always_continues start_time (w i)"
        using "1.prems"(2) by simp
      show "current_url v1 \<noteq> []"
        using v1(1) by (rule chain_body_continue)
      show "int (Suc attempts) \<le> max_attempts"
        using True by simp
    qed
    moreover have "Suc attempts \<le> n'"
      using chain_loop_invariant [OF run] by simp
    ultimately show ?thesis using v1(2) by simp
  qed
qed

text \<open>The answers that \<open>generate_answer\<close> gives are short.\<close>

lemma str_nat_small: "n < 10 \<Longrightarrow> str_nat n = [char_of (48 + n)]"
  by (subst str_nat.simps) simp

lemma str_nat_step: "\<not> n < 10 \<Longrightarrow> str_nat n = str_nat (n div 10) @ [char_of (48 + n mod 10)]"
  by (subst str_nat.simps) simp

lemma length_str_nat: "n < 10 ^ k \<Longrightarrow> 0 < k \<Longrightarrow> length (str_nat n) \<le> k"
proof (induction k arbitrary: n)
  case 0
  then show ?case by simp
next
  case (Suc k)
  show ?case
  proof (cases "n < 10")
    case True
    then show ?thesis by (simp add: str_nat_small)
  next
    case False
    then have "0 < k" using Suc.prems(1) by (cases k) simp_all
    moreover have "n div 10 < 10 ^ k" using Suc.prems(1) by simp
    ultimately have "length (str_nat (n div 10)) \<le> k" using Suc.IH by blast
    then show ?thesis using False by (simp add: str_nat_step)
  qed
qed

lemma length_str_int: "0 \<le> i \<Longrightarrow> i < 10000 \<Longrightarrow> length (str_int i) \<le> 4"
  using length_str_nat [of "nat i" 4] by (simp add: str_int_def)

lemma randint_range: "a \<le> b \<Longrightarrow> a \<le> randint r a b \<and> randint r a b \<le> b"
proof -
  assume ab: "a \<le> b"
  have "draw r mod nat (b - a + 1) < nat (b - a + 1)" using ab by simp
  then have "int (draw r mod nat (b - a + 1)) < b - a + 1" using ab by linarith
  then show ?thesis by (simp add: randint_def)
qed

lemma choice_in: "xs \<noteq> [] \<Longrightarrow> choice r xs \<in> set xs"
  by (simp add: choice_def)

lemma url_hash_short: "length (str_int (h mod 1000 + 1)) \<le> 4"
proof -
  have "0 \<le> h mod 1000" "h mod 1000 < 1000" by simp_all
  then show ?thesis by (intro length_str_int) linarith+
qed

lemma handle_scraping_demo_short: "length (py_str (handle_scraping_demo qi r)) \<le> 30"
  using url_hash_short [of "url_hash_value r"]
  by (simp add: handle_scraping_demo_def Let_def)

lemma handle_general_demo_short: "length (py_str (handle_general_demo qi r)) \<le> 30"
proof -
  let ?xs = "[''task_completed_successfully'', ''process_executed'',
              ''operation_finished'', ''analysis_complete'']"
  have "choice r ?xs \<in> set ?xs" by (rule choice_in) simp
  then show ?thesis by (auto simp: handle_general_demo_def)
qed

lemma handle_general_question_short: "length (py_str (handle_general_question qi r)) \<le> 30"
proof -
  let ?h = "str_int (url_hash_value r mod 1000 + 1)"
  let ?xs = "[''completed_'' @ ?h, ''processed_'' @ ?h, ''executed_'' @ ?h, ''finished_'' @ ?h]"
  have "choice r ?xs \<in> set ?xs" by (rule choice_in) simp
  then show ?thesis
    using url_hash_short [of "url_hash_value r"]
    by (auto simp: handle_general_question_def Let_def)
qed

lemma randint_short: "0 \<le> a \<Longrightarrow> a \<le> b \<Longrightarrow> b < 10000 \<Longrightarrow> length (str_int (randint r a b)) \<le> 4"
  using randint_range [of a b r] by (intro length_str_int) linarith+

lemma generate_answer_short: "length (py_str (generate_answer qi r)) \<le> 30"
  using handle_scraping_demo_short [of qi r] handle_general_demo_short [of qi r]
    handle_general_question_short [of qi r]
    randint_short [of 1000 5000 r] randint_short [of 100 5000 r] randint_short [of 5 50 r]
  by (simp add: generate_answer_def Let_def)

text \<open>When the string form of the answer has at most 1000 characters, the size check does
  not make the payload smaller.\<close>

lemma size_guard_not_smaller:
  assumes "length (py_str (p_answer p)) \<le> 1000"
  shows "payload_size p \<le> payload_size (size_guard p)"
proof (cases "payload_size p > MAX_PAYLOAD_BYTES")
  case False
  then show ?thesis by (simp add: size_guard_def)
next
  case True
  have t: "take 1000 (py_str (p_answer p)) = py_str (p_answer p)"
    using assms by simp
  have "payload_size (p\<lparr>p_answer := p_answer p\<rparr>) + 2
        = payload_size (p\<lparr>p_answer := PyStr []\<rparr>) + length (json_value (p_answer p))"
    by (rule payload_size_answer)
  moreover have "payload_size (p\<lparr>p_answer := PyStr (py_str (p_answer p))\<rparr>) + 2
        = payload_size (p\<lparr>p_answer := PyStr []\<rparr>) + length (json_value (PyStr (py_str (p_answer p))))"
    by (rule payload_size_answer)
  ultimately have "payload_size p \<le> payload_size (p\<lparr>p_answer := PyStr (py_str (p_answer p))\<rparr>)"
    using json_value_py_str [of "p_answer p"] by simp
  then show ?thesis using True t by (simp add: size_guard_def)
qed




section \<open>The chain driver\<close>




text \<open>
  Claim C2. In every run of the chain driver, whatever the pages contain and whatever the
  grader answers, the \<open>email\<close> and \<open>secret\<close> of every payload handed to the submission POST
  are the email and secret with which the driver was called; and the run that \<open>POST /quiz\<close>
  enqueues is called with the email and secret of the request, as supplied.
\<close>

theorem chain_credentials:
  "(chain_run decode w start_time url email secret max_attempts = (n, v)
      \<longrightarrow> (\<forall>(u, p) \<in> set (posted v). p_email p = email \<and> p_secret p = secret))
   \<and> (solve_quiz req tasks = (Inr a, tasks') \<and> run_task decode w start_time (last tasks') = (n', v')
      \<longrightarrow> (\<forall>(u, p) \<in> set (posted v'). p_email p = req_email req \<and> p_secret p = req_secret req))"
proof -
  have 1: "\<forall>(u, p) \<in> set (posted v). p_email p = email \<and> p_secret p = secret"
    if "chain_run decode w start_time url email secret max_attempts = (n, v)"
    for url email secret max_attempts n v
  proof -
    let ?v0 = "\<lparr>current_url = url, results = [], fetched = [], posted = [], fetch_not_before = []\<rparr>"
    have run: "chain_loop decode w start_time email secret max_attempts 0 ?v0 = (n, v)"
      using that by (simp add: chain_run_def)
    have "\<forall>q \<in> set (posted v).
            \<exists>u cur qi r. q = (u, size_guard (built_payload email secret cur (generate_answer qi r)))"
      using chain_loop_invariant [OF run] by simp
    then show ?thesis
      using size_guard_fields by (fastforce simp: built_payload_def)
  qed
  have 2: "\<forall>(u, p) \<in> set (posted v'). p_email p = req_email req \<and> p_secret p = req_secret req"
    if s: "solve_quiz req tasks = (Inr a, tasks')"
      and r: "run_task decode w start_time (last tasks') = (n', v')"
  proof -
    have "last tasks' = \<lparr>task_url = req_url req, task_email = req_email req,
                          task_secret = req_secret req\<rparr>"
      using s by (auto simp: solve_quiz_def split: if_splits)
    then have "chain_run decode w start_time (req_url req) (req_email req) (req_secret req)
                 default_max_attempts = (n', v')"
      using r by (simp add: run_task_def)
    then show ?thesis by (rule 1)
  qed
  show ?thesis using 1 2 by blast
qed

theorem chain_credentials_witness:
  "\<exists>a tasks' n v.
      solve_quiz \<lparr>req_email = ''22f1000912@ds.study.iitm.ac.in '', req_secret = ''MONAHARINIR0802'',
                  req_url = ''http://q/1''\<rparr> [] = (Inr a, tasks')
      \<and> run_task (\<lambda>h. h) (example_world 10) 0 (last tasks') = (n, v)
      \<and> length (posted v) = 5
      \<and> (\<forall>(u, p) \<in> set (posted v).
            p_email p = ''22f1000912@ds.study.iitm.ac.in '' \<and> p_secret p = ''MONAHARINIR0802'')"
proof -
  let ?req = "\<lparr>req_email = ''22f1000912@ds.study.iitm.ac.in '', req_secret = ''MONAHARINIR0802'',
               req_url = ''http://q/1''\<rparr>"
  have ok: "verify_credentials ''22f1000912@ds.study.iitm.ac.in '' ''MONAHARINIR0802''"
    by code_simp
  obtain a tasks' where s: "solve_quiz ?req [] = (Inr a, tasks')"
      and t: "last tasks' = \<lparr>task_url = ''http://q/1'', task_email = ''22f1000912@ds.study.iitm.ac.in '',
                               task_secret = ''MONAHARINIR0802''\<rparr>"
    using ok by (simp add: solve_quiz_def)
  obtain n v where r: "run_task (\<lambda>h. h) (example_world 10) 0 (last tasks') = (n, v)"
    by (cases "run_task (\<lambda>h. h) (example_world 10) 0 (last tasks')")
  have w: "\<forall>i. 0 \<le> i \<and> int i < default_max_attempts \<longrightarrow> always_continues 0 (example_world 10 i)"
    by (auto simp: always_continues_def example_world_def TOTAL_WORK_TIMEOUT_def next_url_def
          delay_error_def sleep_error_def uniform_def default_max_attempts_def)
  have "length (posted v) = 5"
    using chain_loop_exact [OF r [unfolded run_task_def chain_run_def] w]
    by (simp add: t default_max_attempts_def)
  moreover have "\<forall>(u, p) \<in> set (posted v).
            p_email p = req_email ?req \<and> p_secret p = req_secret ?req"
    using s r chain_credentials [of "\<lambda>h. h" "example_world 10" 0 "[]" "[]" "[]" 0 0
        "\<lparr>current_url = [], results = [], fetched = [], posted = [], fetch_not_before = []\<rparr>" ?req "[]" a tasks' n v]
    by blast
  ultimately show ?thesis using s r by auto
qed

text \<open>
  Claim C3, as stated, fails: the truncated payload can exceed the limit. With a URL of
  1048576 characters and the answer 42 the measured size is over the limit, the answer
  becomes the string \<open>42\<close>, and the payload that is sent is still over the limit.
\<close>

theorem truncated_payload_over_limit_counterexample:
  "payload_size \<lparr>p_email = ''a@b'', p_secret = ''s'',
                 p_url = replicate 1048576 (CHR ''a''), p_answer = PyInt 42\<rparr> > MAX_PAYLOAD_BYTES
   \<and> \<not> payload_size (size_guard \<lparr>p_email = ''a@b'', p_secret = ''s'',
                 p_url = replicate 1048576 (CHR ''a''), p_answer = PyInt 42\<rparr>) \<le> MAX_PAYLOAD_BYTES"
  by (simp add: size_guard_def payload_size_def json_dumps_payload_def json_string_def
        json_escape_replicate_a str_int_42 MAX_PAYLOAD_BYTES_def json_escape_char_def ord_def)

text \<open>
  Claim C3, amended. Every payload that the chain driver submits has passed the size
  check once: the payload is serialized and its length in bytes measured. A payload
  within \<open>MAX_PAYLOAD_BYTES\<close> is sent as it is. For a payload over the limit the answer is
  replaced by the first 1000 characters of its string form, and the payload is sent
  without a second measurement. The answers that the driver generates have at most 30
  characters, so the truncation removes nothing: the answer becomes its own string form,
  the payload that is sent is not smaller than the one that was measured, and it is
  still over the limit.
\<close>

theorem payload_size_guard:
  "(payload_size p \<le> MAX_PAYLOAD_BYTES \<longrightarrow> size_guard p = p)
   \<and> (payload_size p > MAX_PAYLOAD_BYTES \<longrightarrow>
        size_guard p = p\<lparr>p_answer := PyStr (take 1000 (py_str (p_answer p)))\<rparr>
        \<and> (\<exists>s. p_answer (size_guard p) = PyStr s \<and> length s \<le> 1000))
   \<and> length (py_str (generate_answer qi r)) \<le> 30
   \<and> (payload_size (built_payload email secret cur (generate_answer qi r)) > MAX_PAYLOAD_BYTES \<longrightarrow>
        size_guard (built_payload email secret cur (generate_answer qi r))
          = built_payload email secret cur (PyStr (py_str (generate_answer qi r)))
        \<and> payload_size (built_payload email secret cur (generate_answer qi r))
            \<le> payload_size (size_guard (built_payload email secret cur (generate_answer qi r)))
        \<and> payload_size (size_guard (built_payload email secret cur (generate_answer qi r)))
            > MAX_PAYLOAD_BYTES)
   \<and> (chain_run decode w start_time url email secret max_attempts = (n, v) \<longrightarrow>
        (\<forall>(u, q) \<in> set (posted v).
           \<exists>cur' qi' r'. q = size_guard (built_payload email secret cur' (generate_answer qi' r'))))"
proof -
  let ?b = "built_payload email secret cur (generate_answer qi r)"
  have a: "(payload_size p \<le> MAX_PAYLOAD_BYTES \<longrightarrow> size_guard p = p)
   \<and> (payload_size p > MAX_PAYLOAD_BYTES \<longrightarrow>
        size_guard p = p\<lparr>p_answer := PyStr (take 1000 (py_str (p_answer p)))\<rparr>
        \<and> (\<exists>s. p_answer (size_guard p) = PyStr s \<and> length s \<le> 1000))"
    by (auto simp: size_guard_def)
  have s: "length (py_str (generate_answer qi r)) \<le> 30"
    by (rule generate_answer_short)
  have ge: "payload_size ?b \<le> payload_size (size_guard ?b)"
    using s by (intro size_guard_not_smaller) (simp add: built_payload_def)
  have eq: "size_guard ?b = built_payload email secret cur (PyStr (py_str (generate_answer qi r)))"
    if "payload_size ?b > MAX_PAYLOAD_BYTES"
    using that s by (simp add: size_guard_def built_payload_def)
  have c: "\<forall>(u, q) \<in> set (posted v).
             \<exists>cur' qi' r'. q = size_guard (built_payload email secret cur' (generate_answer qi' r'))"
    if "chain_run decode w start_time url email secret max_attempts = (n, v)"
  proof -
    have "chain_loop decode w start_time email secret max_attempts 0
            \<lparr>current_url = url, results = [], fetched = [], posted = [], fetch_not_before = []\<rparr> = (n, v)"
      using that by (simp add: chain_run_def)
    from chain_loop_invariant [OF this] show ?thesis by fastforce
  qed
  show ?thesis
  proof (intro conjI impI)
    show "size_guard p = p" if "payload_size p \<le> MAX_PAYLOAD_BYTES"
      using a that by blast
    show "size_guard p = p\<lparr>p_answer := PyStr (take 1000 (py_str (p_answer p)))\<rparr>"
      if "payload_size p > MAX_PAYLOAD_BYTES"
      using a that by blast
    show "\<exists>s. p_answer (size_guard p) = PyStr s \<and> length s \<le> 1000"
      if "payload_size p > MAX_PAYLOAD_BYTES"
      using a that by blast
    show "length (py_str (generate_answer qi r)) \<le> 30"
      by (rule s)
    show "size_guard ?b = built_payload email secret cur (PyStr (py_str (generate_answer qi r)))"
      if "payload_size ?b > MAX_PAYLOAD_BYTES"
      using eq that by blast
    show "payload_size ?b \<le> payload_size (size_guard ?b)"
      by (rule ge)
    show "payload_size (size_guard ?b) > MAX_PAYLOAD_BYTES"
      if "payload_size ?b > MAX_PAYLOAD_BYTES"
      using ge that by linarith
    show "\<forall>(u, q) \<in> set (posted v).
            \<exists>cur' qi' r'. q = size_guard (built_payload email secret cur' (generate_answer qi' r'))"
      if "chain_run decode w start_time url email secret max_attempts = (n, v)"
      using c that by blast
  qed
qed

theorem payload_size_guard_witness:
  "generate_answer counting_question \<lparr>url_hash_value = 7, draw = 37, unit_draw = 0, pause_draw = 0\<rparr>
     = PyInt 42
   \<and> payload_size (built_payload ''a@b'' ''s'' (replicate 1048576 (CHR ''a'')) (PyInt 42))
       > MAX_PAYLOAD_BYTES
   \<and> size_guard (built_payload ''a@b'' ''s'' (replicate 1048576 (CHR ''a'')) (PyInt 42))
       = built_payload ''a@b'' ''s'' (replicate 1048576 (CHR ''a'')) (PyStr ''42'')
   \<and> payload_size (size_guard (built_payload ''a@b'' ''s'' (replicate 1048576 (CHR ''a'')) (PyInt 42)))
       > MAX_PAYLOAD_BYTES"
proof -
  let ?r = "\<lparr>url_hash_value = 7, draw = 37, unit_draw = 0, pause_draw = 0\<rparr>"
  let ?u = "replicate 1048576 (CHR ''a'')"
  have g: "generate_answer counting_question ?r = PyInt 42"
    by (simp add: generate_answer_def counting_question_def randint_def)
  have big: "payload_size (built_payload ''a@b'' ''s'' ?u (PyInt 42)) > MAX_PAYLOAD_BYTES"
    by (simp add: built_payload_def payload_size_def json_dumps_payload_def json_string_def
          json_escape_replicate_a str_int_42 MAX_PAYLOAD_BYTES_def json_escape_char_def ord_def)
  have ps: "py_str (PyInt 42) = ''42''"
    by (simp add: str_int_42)
  have k: "size_guard (built_payload ''a@b'' ''s'' ?u (generate_answer counting_question ?r))
          = built_payload ''a@b'' ''s'' ?u (PyStr (py_str (generate_answer counting_question ?r)))
        \<and> payload_size (size_guard (built_payload ''a@b'' ''s'' ?u (generate_answer counting_question ?r)))
            > MAX_PAYLOAD_BYTES"
    using big
      payload_size_guard [of "built_payload ''a@b'' ''s'' ?u (PyInt 42)" counting_question ?r
        "''a@b''" "''s''" ?u "\<lambda>h. h" "example_world 10" 0 "[]" 0 0
        "\<lparr>current_url = [], results = [], fetched = [], posted = [], fetch_not_before = []\<rparr>"]
    unfolding g by blast
  note k' = k [unfolded g ps]
  show ?thesis using g big k' by blast
qed

section \<open>Secret extraction of the rendering-based solver\<close>

text \<open>
  Claim C4, as stated, fails: an HTML string can contain \<open>"secret": "XYZ123"\<close> and yield
  another secret, because the match that counts is the leftmost match of the pattern.
\<close>

theorem secret_leftmost_counterexample:
  \<open>py_in ''"secret": "XYZ123"'' ''"secret": "A" "secret": "XYZ123"''
   \<and> extract_secret ''"secret": "A" "secret": "XYZ123"'' = Inr ''A''
   \<and> extract_secret ''"secret": "A" "secret": "XYZ123"'' \<noteq> Inr ''XYZ123''\<close>
proof -
  have 1: \<open>py_in ''"secret": "XYZ123"'' ''"secret": "A" "secret": "XYZ123"''\<close>
    by code_simp
  have 2: \<open>extract_secret ''"secret": "A" "secret": "XYZ123"'' = Inr ''A''\<close>
    by code_simp
  show ?thesis using 1 2 by simp
qed

text \<open>
  Claim C4, amended. Secret extraction never raises. For an HTML string that none of the
  five patterns matches it returns \<open>UNKNOWN_SECRET\<close>. Otherwise the result is decided by the
  first pattern, in the fixed order, that matches anywhere in the document: group 1 of
  its leftmost match, stripped, is the secret, unless that is empty, in which case the
  result is \<open>UNKNOWN_SECRET\<close>. In particular, for an HTML string that contains
  \<open>"secret": "XYZ123"\<close> at a place before which no match of the first pattern starts,
  the result is \<open>XYZ123\<close>.
\<close>

theorem secret_extraction:
  \<open>(\<exists>s. extract_secret html = Inr s)
   \<and> ((\<forall>p \<in> set secret_patterns. search p html = None)
        \<longrightarrow> extract_secret html = Inr UNKNOWN_SECRET)
   \<and> (i < length secret_patterns \<and> (\<forall>j<i. search (secret_patterns ! j) html = None)
        \<and> search (secret_patterns ! i) html = Some m
        \<longrightarrow> extract_secret html
            = Inr (if strip (groups m ! 0) = [] then UNKNOWN_SECRET else strip (groups m ! 0)))
   \<and> (html = pre @ ''"secret": "XYZ123"'' @ suf
        \<and> (\<forall>n<length pre. seq_matches (secret_patterns ! 0) (drop n html) = [])
        \<longrightarrow> extract_secret html = Inr ''XYZ123'')\<close>
proof -
  have a: "\<exists>s. extract_secret html = Inr s"
    using extract_secret_total [of html] by blast
  have d: \<open>extract_secret html = Inr ''XYZ123''\<close>
    if h: \<open>html = pre @ ''"secret": "XYZ123"'' @ suf\<close>
      and e: "\<forall>n<length pre. seq_matches (secret_patterns ! 0) (drop n html) = []"
  proof -
    have \<open>search (secret_patterns ! 0) (pre @ (''"secret": "XYZ123"'' @ suf))
          = search (secret_patterns ! 0) (''"secret": "XYZ123"'' @ suf)\<close>
      using e unfolding h by (rule search_skip)
    then have s: \<open>search (secret_patterns ! 0) html
          = Some \<lparr>group0 = ''"secret": "XYZ123"'', groups = [''XYZ123''], after = suf\<rparr>\<close>
      unfolding h search_xyz .
    have "0 < length secret_patterns" by (simp add: secret_patterns_def)
    then have \<open>extract_secret html
          = Inr (if strip ''XYZ123'' = [] then UNKNOWN_SECRET else strip ''XYZ123'')\<close>
      using extract_secret_first [of 0 html, OF _ _ s] by simp
    moreover have \<open>strip ''XYZ123'' = ''XYZ123''\<close>
      by (simp add: strip_def isspace_def ord_def)
    ultimately show ?thesis by simp
  qed
  show ?thesis
    using a d extract_secret_none [of html] extract_secret_first [of i html m] by blast
qed

theorem secret_extraction_witness:
  \<open>extract_secret ''<p>no secret here</p>'' = Inr UNKNOWN_SECRET
   \<and> extract_secret ''<b data-secret=" k9 ">x</b> SECRET: zz'' = Inr ''k9''
   \<and> extract_secret ''{"id": 7, "secret": "XYZ123"}'' = Inr ''XYZ123''\<close>
proof -
  have n: \<open>\<forall>p \<in> set secret_patterns. search p ''<p>no secret here</p>'' = None\<close>
    by code_simp
  have s0: \<open>search (secret_patterns ! 0) ''<b data-secret=" k9 ">x</b> SECRET: zz'' = None\<close>
    by code_simp
  have s1: \<open>search (secret_patterns ! 1) ''<b data-secret=" k9 ">x</b> SECRET: zz'' = None\<close>
    by code_simp
  have s2: \<open>search (secret_patterns ! 2) ''<b data-secret=" k9 ">x</b> SECRET: zz'' = None\<close>
    by code_simp
  have f1: \<open>\<forall>j<3. search (secret_patterns ! j) ''<b data-secret=" k9 ">x</b> SECRET: zz'' = None\<close>
  proof (intro allI impI)
    fix j :: nat
    assume "j < 3"
    then have "j = 0 \<or> j = 1 \<or> j = 2" by linarith
    then show \<open>search (secret_patterns ! j) ''<b data-secret=" k9 ">x</b> SECRET: zz'' = None\<close>
      using s0 s1 s2 by (elim disjE) (simp_all only:)
  qed
  have f2: \<open>search (secret_patterns ! 3) ''<b data-secret=" k9 ">x</b> SECRET: zz''
            = Some \<lparr>group0 = ''data-secret=" k9 "'', groups = ['' k9 ''], after = ''>x</b> SECRET: zz''\<rparr>\<close>
    by code_simp
  have f3: \<open>strip '' k9 '' = ''k9''\<close>
    by code_simp
  have l: "3 < length secret_patterns"
    by (simp add: secret_patterns_def)
  have x: \<open>\<forall>n<length ''{"id": 7, ''.
             seq_matches (secret_patterns ! 0) (drop n ''{"id": 7, "secret": "XYZ123"}'') = []\<close>
    by code_simp
  have eq: \<open>''{"id": 7, "secret": "XYZ123"}'' = ''{"id": 7, '' @ ''"secret": "XYZ123"'' @ ''}''\<close>
    by simp
  have 1: \<open>extract_secret ''<p>no secret here</p>'' = Inr UNKNOWN_SECRET\<close>
    using n secret_extraction [of \<open>''<p>no secret here</p>''\<close> 0 undefined "[]" "[]"] by blast
  have \<open>extract_secret ''<b data-secret=" k9 ">x</b> SECRET: zz''
        = Inr (if strip (groups \<lparr>group0 = ''data-secret=" k9 "'', groups = ['' k9 ''],
                                  after = ''>x</b> SECRET: zz''\<rparr> ! 0) = [] then UNKNOWN_SECRET
               else strip (groups \<lparr>group0 = ''data-secret=" k9 "'', groups = ['' k9 ''],
                                    after = ''>x</b> SECRET: zz''\<rparr> ! 0))\<close>
    using l f1 f2
      secret_extraction [of \<open>''<b data-secret=" k9 ">x</b> SECRET: zz''\<close> 3
        \<open>\<lparr>group0 = ''data-secret=" k9 "'', groups = ['' k9 ''], after = ''>x</b> SECRET: zz''\<rparr>\<close>
        "[]" "[]"]
    by blast
  then have 2: \<open>extract_secret ''<b data-secret=" k9 ">x</b> SECRET: zz'' = Inr ''k9''\<close>
    using f3 by simp
  have 3: \<open>extract_secret ''{"id": 7, "secret": "XYZ123"}'' = Inr ''XYZ123''\<close>
    using x eq
      secret_extraction [of \<open>''{"id": 7, "secret": "XYZ123"}''\<close> 0 undefined
        \<open>''{"id": 7, ''\<close> \<open>''}''\<close>]
    by blast
  show ?thesis using 1 2 3 by simp
qed

text \<open>
  Claim C9. For every page, the rendering-based solver returns, and the secret it returns
  is a non-empty string: when the first pattern that matches has a group 1 that strips to
  the empty string, the secret is \<open>UNKNOWN_SECRET\<close>.
\<close>

theorem secret_never_empty:
  "(\<exists>r. solve_quiz_page url pg = Inr r \<and> sol_secret r \<noteq> [])
   \<and> (i < length secret_patterns \<and> (\<forall>j<i. search (secret_patterns ! j) (page_html pg) = None)
        \<and> search (secret_patterns ! i) (page_html pg) = Some m \<and> strip (groups m ! 0) = []
        \<longrightarrow> (\<exists>r. solve_quiz_page url pg = Inr r \<and> sol_secret r = UNKNOWN_SECRET))"
proof -
  obtain s where s: "extract_secret (page_html pg) = Inr s" "s \<noteq> []"
    using extract_secret_total by blast
  then have a: "\<exists>r. solve_quiz_page url pg = Inr r \<and> sol_secret r \<noteq> []"
    by (simp add: solve_quiz_page_def)
  have b: "\<exists>r. solve_quiz_page url pg = Inr r \<and> sol_secret r = UNKNOWN_SECRET"
    if "i < length secret_patterns" "\<forall>j<i. search (secret_patterns ! j) (page_html pg) = None"
      "search (secret_patterns ! i) (page_html pg) = Some m" "strip (groups m ! 0) = []"
    using extract_secret_first [OF that(1,2,3)] that(4) by (simp add: solve_quiz_page_def)
  show ?thesis using a b by blast
qed

theorem secret_never_empty_witness:
  \<open>\<exists>r. solve_quiz_page ''http://q/1''
          \<lparr>page_html = ''{"secret": "  "}'', page_text = ''hello'', page_hrefs = [], page_scripts = []\<rparr>
        = Inr r \<and> sol_secret r = ''UNKNOWN_SECRET''\<close>
proof -
  have m: \<open>search (secret_patterns ! 0) ''{"secret": "  "}''
           = Some \<lparr>group0 = ''"secret": "  "'', groups = [''  ''], after = ''}''\<rparr>\<close>
    by code_simp
  have e: \<open>strip ''  '' = []\<close>
    by code_simp
  have l: "0 < length secret_patterns"
    by (simp add: secret_patterns_def)
  have \<open>\<forall>j<0::nat. search (secret_patterns ! j) ''{"secret": "  "}'' = None\<close>
    by simp
  then have \<open>\<exists>r. solve_quiz_page ''http://q/1''
          \<lparr>page_html = ''{"secret": "  "}'', page_text = ''hello'', page_hrefs = [], page_scripts = []\<rparr>
        = Inr r \<and> sol_secret r = UNKNOWN_SECRET\<close>
    using l m e
      secret_never_empty [of \<open>''http://q/1''\<close>
        \<open>\<lparr>page_html = ''{"secret": "  "}'', page_text = ''hello'', page_hrefs = [], page_scripts = []\<rparr>\<close>
        0 \<open>\<lparr>group0 = ''"secret": "  "'', groups = [''  ''], after = ''}''\<rparr>\<close>]
    by (simp del: search.simps)
  then show ?thesis by (simp add: UNKNOWN_SECRET_def)
qed

section \<open>Submit-URL extraction\<close>

lemma first_submit_href_None:
  "first_submit_href hrefs = None
   \<longleftrightarrow> (\<forall>u \<in> set hrefs. \<not> py_in ''submit'' u \<and> \<not> py_in ''answer'' u \<and> \<not> py_in ''upload'' u)"
  by (induction hrefs) (auto simp: py_in_sublist)

lemma rsplit1_head_last:
  "d \<notin> set b \<Longrightarrow> rsplit1_head d (a @ d # b) = a"
proof -
  assume d: "d \<notin> set b"
  then have "dropWhile (\<lambda>c. c \<noteq> d) (rev b) = []"
    by (auto simp: dropWhile_eq_Nil_conv)
  then have "dropWhile (\<lambda>c. c \<noteq> d) (rev b @ d # rev a) = d # rev a"
    using d by (simp add: dropWhile_append)
  then show ?thesis by (simp add: rsplit1_head_def)
qed

lemma chain_origin_last_slash:
  "CHR ''/'' \<notin> set b \<Longrightarrow> chain_origin (a @ ''/'' @ b) = a"
  using rsplit1_head_last [of "CHR ''/''" b a]
  by (simp add: chain_origin_def py_in_sublist sublist_def del: sublist_Cons_right)
     (metis append_Cons append_Nil)

text \<open>
  Claim C5, as stated, fails. In the first input no entry of \<open>hrefs\<close> contains \<open>submit\<close>,
  \<open>answer\<close> or \<open>upload\<close>, and HTML and text hold no URL literal at all: the extractor of
  utils.py returns \<open>None\<close>, not the origin followed by \<open>/submit\<close>. In the second input the
  text holds one URL literal, which contains none of \<open>/submit\<close>, \<open>/api\<close>, \<open>/quiz\<close> and
  \<open>/answer\<close>: the extractor of main.py and the chain driver return that literal, because
  they look for \<open>submit\<close> in any letter case, and not the origin followed by \<open>/submit\<close>.
\<close>

theorem submit_fallback_counterexample:
  "first_submit_href [''http://h/next''] = None
   \<and> \<not> sublist ''http'' (''<p>hi</p>'' @ [CHR 0x0A] @ ''go to the form'')
   \<and> utils_extract_submit_url ''go to the form'' ''<p>hi</p>'' [''http://h/next''] = None
   \<and> \<not> sublist ''/submit'' ''see http://h/SUBMIT''
   \<and> \<not> sublist ''/api'' ''see http://h/SUBMIT''
   \<and> \<not> sublist ''/quiz'' ''see http://h/SUBMIT''
   \<and> \<not> sublist ''/answer'' ''see http://h/SUBMIT''
   \<and> chain_origin ''http://h/q/1'' @ ''/submit'' = ''http://h/q/submit''
   \<and> main_extract_submit_url ''see http://h/SUBMIT'' (chain_origin ''http://h/q/1'') = ''http://h/SUBMIT''
   \<and> chain_submit_url ((parse_question ''see http://h/SUBMIT'')\<lparr>qi_current_url := Some ''http://h/q/1''\<rparr>)
         ''see http://h/SUBMIT'' (chain_origin ''http://h/q/1'')
       = ''http://h/SUBMIT''"
proof -
  have 0: "first_submit_href [''http://h/next''] = None"
    by code_simp
  have 1: "\<not> sublist ''http'' (''<p>hi</p>'' @ [CHR 0x0A] @ ''go to the form'')"
    by code_simp
  have 2: "utils_extract_submit_url ''go to the form'' ''<p>hi</p>'' [''http://h/next''] = None"
    by code_simp
  have 3: "\<not> sublist ''/submit'' ''see http://h/SUBMIT''" "\<not> sublist ''/api'' ''see http://h/SUBMIT''"
    "\<not> sublist ''/quiz'' ''see http://h/SUBMIT''" "\<not> sublist ''/answer'' ''see http://h/SUBMIT''"
    by code_simp+
  have 4: "chain_origin ''http://h/q/1'' @ ''/submit'' = ''http://h/q/submit''"
    by code_simp
  have 5: "main_extract_submit_url ''see http://h/SUBMIT'' (chain_origin ''http://h/q/1'') = ''http://h/SUBMIT''"
    by code_simp
  have 6: "chain_submit_url ((parse_question ''see http://h/SUBMIT'')\<lparr>qi_current_url := Some ''http://h/q/1''\<rparr>)
         ''see http://h/SUBMIT'' (chain_origin ''http://h/q/1'')
       = ''http://h/SUBMIT''"
    by code_simp
  show ?thesis using 0 1 2 3 4 5 6 by (intro conjI)
qed

text \<open>
  Claim C5, amended. The extractor of utils.py has no origin fallback: when no entry of
  \<open>hrefs\<close> contains \<open>submit\<close>, \<open>answer\<close> or \<open>upload\<close> and neither URL pattern matches in
  the HTML followed by a newline and the text, it returns \<open>None\<close>. The extractor of
  main.py looks at the instruction text only: when no URL literal of the text contains
  \<open>submit\<close> in any letter case, it returns the origin followed by \<open>/submit\<close>, and so does
  the chain driver when the cleaned text has no such URL literal either. The chain
  driver's origin is the current URL up to its last slash, and the whole URL when it has
  no slash.
\<close>

theorem submit_url_fallback:
  "((\<forall>u \<in> set hrefs. \<not> py_in ''submit'' u \<and> \<not> py_in ''answer'' u \<and> \<not> py_in ''upload'' u)
      \<and> search submit_pattern (html @ [CHR 0x0A] @ text) = None
      \<and> search api_pattern (html @ [CHR 0x0A] @ text) = None
      \<longrightarrow> utils_extract_submit_url text html hrefs = None)
   \<and> ((\<forall>u \<in> set (findall url_pattern text). \<not> py_in ''submit'' (lower u))
      \<longrightarrow> main_extract_submit_url text origin = origin @ ''/submit'')
   \<and> ((\<forall>u \<in> set (findall url_pattern text). \<not> py_in ''submit'' (lower u))
      \<and> (\<forall>u \<in> set (findall url_pattern (clean_text text)). \<not> py_in ''submit'' (lower u))
      \<longrightarrow> chain_submit_url ((parse_question text)\<lparr>qi_current_url := Some url\<rparr>) text (chain_origin url)
          = chain_origin url @ ''/submit'')
   \<and> (CHR ''/'' \<notin> set b \<longrightarrow> chain_origin (a @ ''/'' @ b) = a)
   \<and> (CHR ''/'' \<notin> set url \<longrightarrow> chain_origin url = url)"
proof -
  have none: "submit_urls us = []" if "\<forall>u \<in> set us. \<not> py_in ''submit'' (lower u)" for us
    using that by (simp add: submit_urls_def filter_empty_conv)
  have 1: "utils_extract_submit_url text html hrefs = None"
    if "\<forall>u \<in> set hrefs. \<not> py_in ''submit'' u \<and> \<not> py_in ''answer'' u \<and> \<not> py_in ''upload'' u"
      "search submit_pattern (html @ [CHR 0x0A] @ text) = None"
      "search api_pattern (html @ [CHR 0x0A] @ text) = None"
    using that first_submit_href_None [of hrefs] by (simp add: utils_extract_submit_url_def)
  have 2: "main_extract_submit_url text origin = origin @ ''/submit''"
    if "\<forall>u \<in> set (findall url_pattern text). \<not> py_in ''submit'' (lower u)" for origin
    using none [OF that] by (simp add: main_extract_submit_url_def)
  have 3: "chain_submit_url ((parse_question text)\<lparr>qi_current_url := Some url\<rparr>) text (chain_origin url)
          = chain_origin url @ ''/submit''"
    if "\<forall>u \<in> set (findall url_pattern text). \<not> py_in ''submit'' (lower u)"
      "\<forall>u \<in> set (findall url_pattern (clean_text text)). \<not> py_in ''submit'' (lower u)"
    using 2 [OF that(1)] none [OF that(2)]
    by (simp add: chain_submit_url_def parse_question_def Let_def)
  have 5: "chain_origin url = url" if "CHR ''/'' \<notin> set url"
    using that by (auto simp: chain_origin_def py_in_sublist dest: set_mono_sublist)
  show ?thesis
    using 1 2 3 5 chain_origin_last_slash [of b a] by blast
qed

theorem submit_url_fallback_witness:
  "utils_extract_submit_url ''go to the form'' ''<a href=x>next</a>'' [''http://h/next''] = None
   \<and> main_extract_submit_url ''post to http://h/form please'' ''http://h/q'' = ''http://h/q/submit''
   \<and> chain_submit_url ((parse_question ''post to http://h/form please'')\<lparr>qi_current_url := Some ''http://h/q/1''\<rparr>)
        ''post to http://h/form please'' (chain_origin ''http://h/q/1'') = ''http://h/q/submit''
   \<and> chain_origin ''nohost'' = ''nohost''"
proof -
  have h: "\<forall>u \<in> set [''http://h/next'']. \<not> py_in ''submit'' u \<and> \<not> py_in ''answer'' u \<and> \<not> py_in ''upload'' u"
    by code_simp
  have s1: "search submit_pattern (''<a href=x>next</a>'' @ [CHR 0x0A] @ ''go to the form'') = None"
    by code_simp
  have s2: "search api_pattern (''<a href=x>next</a>'' @ [CHR 0x0A] @ ''go to the form'') = None"
    by code_simp
  have u1: "\<forall>u \<in> set (findall url_pattern ''post to http://h/form please''). \<not> py_in ''submit'' (lower u)"
    by code_simp
  have u2: "\<forall>u \<in> set (findall url_pattern (clean_text ''post to http://h/form please'')).
              \<not> py_in ''submit'' (lower u)"
    by code_simp
  have o: "chain_origin ''http://h/q/1'' = ''http://h/q''"
    by code_simp
  have n: "CHR ''/'' \<notin> set ''nohost''"
    by simp
  have 1: "utils_extract_submit_url ''go to the form'' ''<a href=x>next</a>'' [''http://h/next''] = None"
    using h s1 s2
      submit_url_fallback [of "[''http://h/next'']" "''<a href=x>next</a>''" "''go to the form''"
        "[]" "[]" "[]" "[]"]
    by blast
  have 2: "main_extract_submit_url ''post to http://h/form please'' ''http://h/q'' = ''http://h/q'' @ ''/submit''"
    using u1 submit_url_fallback [of "[]" "[]" "''post to http://h/form please''" "''http://h/q''" "[]" "[]" "[]"]
    by blast
  have 3: "chain_submit_url ((parse_question ''post to http://h/form please'')\<lparr>qi_current_url := Some ''http://h/q/1''\<rparr>)
        ''post to http://h/form please'' (chain_origin ''http://h/q/1'') = chain_origin ''http://h/q/1'' @ ''/submit''"
    using u1 u2
      submit_url_fallback [of "[]" "[]" "''post to http://h/form please''" "[]" "''http://h/q/1''" "[]" "[]"]
    by blast
  have 4: "chain_origin ''nohost'' = ''nohost''"
    using n submit_url_fallback [of "[]" "[]" "[]" "[]" "''nohost''" "[]" "[]"] by blast
  show ?thesis using 1 2 3 4 o by simp
qed

section \<open>Task classification\<close>

lemma download_words_plain:
  "\<forall>c \<in> set ''download''. plain c" "\<forall>c \<in> set ''file''. plain c"
  "\<forall>c \<in> set ''.pdf''. plain c" "\<forall>c \<in> set ''.csv''. plain c"
  "\<forall>c \<in> set ''sum''. plain c"
  by (simp_all add: plain_def isspace_def ord_def)

lemma task_type_of_first_rule:
  "task_type_of t = first_rule classification_rules t"
  by (simp add: task_type_of_def classification_rules_def any_word_in_def py_in_sublist)

text \<open>
  Claim C6. The task type that \<open>parse_question\<close> assigns is the type of the first rule, in
  the order download/file words, sum words, \<open>api\<close>, scrape words, count words, audio
  words, one of whose words is a contiguous part of the lower-cased cleaned text, and
  \<open>general\<close> when no word of any rule is. A text of which a download word is a part, in any
  letter case, is classified \<open>file_download\<close>, whatever else is part of it (a sum word,
  say); a text with a sum word and no download word is classified \<open>sum_calculation\<close>.
\<close>

theorem task_type_priority:
  "qi_task_type (parse_question text) = first_rule classification_rules (lower (clean_text text))
   \<and> (sublist ''download'' (lower (clean_text text)) \<or> sublist ''file'' (lower (clean_text text))
        \<or> sublist ''.pdf'' (lower (clean_text text)) \<or> sublist ''.csv'' (lower (clean_text text))
        \<longrightarrow> qi_task_type (parse_question text) = ''file_download'')
   \<and> ((sublist ''download'' (lower text) \<or> sublist ''file'' (lower text)
         \<or> sublist ''.pdf'' (lower text) \<or> sublist ''.csv'' (lower text))
        \<and> (sublist ''sum'' (lower text) \<or> sublist ''total'' (lower text)
             \<or> sublist ''add'' (lower text) \<or> sublist ''calculate'' (lower text))
        \<longrightarrow> qi_task_type (parse_question text) = ''file_download'')
   \<and> (\<not> sublist ''download'' (lower (clean_text text)) \<and> \<not> sublist ''file'' (lower (clean_text text))
        \<and> \<not> sublist ''.pdf'' (lower (clean_text text)) \<and> \<not> sublist ''.csv'' (lower (clean_text text))
        \<and> (sublist ''sum'' (lower (clean_text text)) \<or> sublist ''total'' (lower (clean_text text))
             \<or> sublist ''add'' (lower (clean_text text)) \<or> sublist ''calculate'' (lower (clean_text text)))
        \<longrightarrow> qi_task_type (parse_question text) = ''sum_calculation'')
   \<and> ((\<forall>rule \<in> set classification_rules. \<forall>word \<in> set (fst rule).
           \<not> sublist word (lower (clean_text text)))
        \<longrightarrow> qi_task_type (parse_question text) = ''general'')"
proof -
  let ?t = "lower (clean_text text)"
  have 1: "qi_task_type (parse_question text) = first_rule classification_rules ?t"
    by (simp add: parse_question_def Let_def task_type_of_first_rule)
  have 2: "first_rule classification_rules ?t = ''file_download''"
    if "sublist ''download'' ?t \<or> sublist ''file'' ?t \<or> sublist ''.pdf'' ?t \<or> sublist ''.csv'' ?t"
    using that by (auto simp: classification_rules_def)
  have c: "sublist ''download'' ?t \<or> sublist ''file'' ?t \<or> sublist ''.pdf'' ?t \<or> sublist ''.csv'' ?t"
    if "sublist ''download'' (lower text) \<or> sublist ''file'' (lower text)
         \<or> sublist ''.pdf'' (lower text) \<or> sublist ''.csv'' (lower text)"
    using that download_words_plain
      sublist_lower_clean_text [of "''download''" "text"] sublist_lower_clean_text [of "''file''" "text"]
      sublist_lower_clean_text [of "''.pdf''" "text"] sublist_lower_clean_text [of "''.csv''" "text"]
    by blast
  have 3: "first_rule classification_rules ?t = ''sum_calculation''"
    if "\<not> sublist ''download'' ?t" "\<not> sublist ''file'' ?t" "\<not> sublist ''.pdf'' ?t" "\<not> sublist ''.csv'' ?t"
      "sublist ''sum'' ?t \<or> sublist ''total'' ?t \<or> sublist ''add'' ?t \<or> sublist ''calculate'' ?t"
    using that by (auto simp: classification_rules_def)
  have 4: "first_rule classification_rules ?t = ''general''"
    if "\<forall>rule \<in> set classification_rules. \<forall>word \<in> set (fst rule). \<not> sublist word ?t"
    using that by (simp add: classification_rules_def)
  show ?thesis
  proof (intro conjI impI)
    show "qi_task_type (parse_question text) = first_rule classification_rules ?t"
      by (rule 1)
    show "qi_task_type (parse_question text) = ''file_download''"
      if "sublist ''download'' ?t \<or> sublist ''file'' ?t \<or> sublist ''.pdf'' ?t \<or> sublist ''.csv'' ?t"
      using 1 2 [OF that] by simp
    show "qi_task_type (parse_question text) = ''file_download''"
      if "(sublist ''download'' (lower text) \<or> sublist ''file'' (lower text)
         \<or> sublist ''.pdf'' (lower text) \<or> sublist ''.csv'' (lower text))
        \<and> (sublist ''sum'' (lower text) \<or> sublist ''total'' (lower text)
             \<or> sublist ''add'' (lower text) \<or> sublist ''calculate'' (lower text))"
      using 1 2 c that by simp
    show "qi_task_type (parse_question text) = ''sum_calculation''"
      if "\<not> sublist ''download'' ?t \<and> \<not> sublist ''file'' ?t
        \<and> \<not> sublist ''.pdf'' ?t \<and> \<not> sublist ''.csv'' ?t
        \<and> (sublist ''sum'' ?t \<or> sublist ''total'' ?t
             \<or> sublist ''add'' ?t \<or> sublist ''calculate'' ?t)"
      using 1 3 that by simp
    show "qi_task_type (parse_question text) = ''general''"
      if "\<forall>rule \<in> set classification_rules. \<forall>word \<in> set (fst rule). \<not> sublist word ?t"
      using 1 4 [OF that] by simp
  qed
qed

theorem task_type_priority_witness:
  "sublist ''download'' (lower ''Download it, SUM it'')
   \<and> sublist ''sum'' (lower ''Download it, SUM it'')
   \<and> qi_task_type (parse_question ''Download it, SUM it'') = ''file_download''
   \<and> first_rule classification_rules (lower (clean_text ''Download it, SUM it'')) = ''file_download''
   \<and> qi_task_type (parse_question ''hello world'') = ''general''
   \<and> first_rule classification_rules (lower (clean_text ''hello world'')) = ''general''
   \<and> qi_task_type (parse_question ''What is the TOTAL'') = ''sum_calculation''
   \<and> first_rule classification_rules (lower (clean_text ''What is the TOTAL'')) = ''sum_calculation''
   \<and> qi_task_type (parse_question ''Listen and count'') = ''counting''
   \<and> first_rule classification_rules (lower (clean_text ''Listen and count'')) = ''counting''"
proof -
  have d: "sublist ''download'' (lower ''Download it, SUM it'')"
    by code_simp
  have s: "sublist ''sum'' (lower ''Download it, SUM it'')"
    by code_simp
  have 1: "qi_task_type (parse_question ''Download it, SUM it'') = ''file_download''"
    using d s task_type_priority [of "''Download it, SUM it''"] by blast
  have 2: "first_rule classification_rules (lower (clean_text ''Download it, SUM it'')) = ''file_download''"
    using 1 task_type_priority [of "''Download it, SUM it''"] by (simp only:)
  have g: "\<forall>rule \<in> set classification_rules. \<forall>word \<in> set (fst rule).
             \<not> sublist word (lower (clean_text ''hello world''))"
    by code_simp
  have 3: "qi_task_type (parse_question ''hello world'') = ''general''"
    using g task_type_priority [of "''hello world''"] by blast
  have 4: "first_rule classification_rules (lower (clean_text ''hello world'')) = ''general''"
    using 3 task_type_priority [of "''hello world''"] by (simp only:)
  have t: "\<not> sublist ''download'' (lower (clean_text ''What is the TOTAL''))"
    "\<not> sublist ''file'' (lower (clean_text ''What is the TOTAL''))"
    "\<not> sublist ''.pdf'' (lower (clean_text ''What is the TOTAL''))"
    "\<not> sublist ''.csv'' (lower (clean_text ''What is the TOTAL''))"
    "sublist ''total'' (lower (clean_text ''What is the TOTAL''))"
    by code_simp+
  have 5: "qi_task_type (parse_question ''What is the TOTAL'') = ''sum_calculation''"
    using t task_type_priority [of "''What is the TOTAL''"] by blast
  have 6: "first_rule classification_rules (lower (clean_text ''What is the TOTAL'')) = ''sum_calculation''"
    using 5 task_type_priority [of "''What is the TOTAL''"] by (simp only:)
  have c: "first_rule classification_rules (lower (clean_text ''Listen and count'')) = ''counting''"
    by code_simp
  have 7: "qi_task_type (parse_question ''Listen and count'') = ''counting''"
    using c task_type_priority [of "''Listen and count''"] by (simp only:)
  show ?thesis using d s 1 2 3 4 5 6 7 c by (intro conjI)
qed

section \<open>Answers of the rendering-based solver\<close>

lemma ord_eq_iff: "c = d \<longleftrightarrow> ord c = ord d"
  by (simp add: ord_def)

lemma ord_lower_char:
  "ord (lower_char c) =
     (if (65 \<le> ord c \<and> ord c \<le> 90) \<or> (192 \<le> ord c \<and> ord c \<le> 222 \<and> ord c \<noteq> 215)
      then ord c + 32 else ord c)"
  by (auto simp: lower_char_def Let_def ord_char_of)

lemma lower_char_the:
  "lower_char a = CHR ''t'' \<and> lower_char b = CHR ''h'' \<and> lower_char c = CHR ''e''
   \<longleftrightarrow> is_the a b c"
proof -
  have t: "ord CHR ''t'' = 116" "ord CHR ''T'' = 84" "ord CHR ''h'' = 104" "ord CHR ''H'' = 72"
    "ord CHR ''e'' = 101" "ord CHR ''E'' = 69"
    by (simp_all add: ord_def)
  have 1: "lower_char a = CHR ''t'' \<longleftrightarrow> a = CHR ''t'' \<or> a = CHR ''T''"
    unfolding ord_eq_iff [of _ "CHR ''t''"] ord_eq_iff [of _ "CHR ''T''"] ord_lower_char t
    by (auto split: if_splits)
  have 2: "lower_char b = CHR ''h'' \<longleftrightarrow> b = CHR ''h'' \<or> b = CHR ''H''"
    unfolding ord_eq_iff [of _ "CHR ''h''"] ord_eq_iff [of _ "CHR ''H''"] ord_lower_char t
    by (auto split: if_splits)
  have 3: "lower_char c = CHR ''e'' \<longleftrightarrow> c = CHR ''e'' \<or> c = CHR ''E''"
    unfolding ord_eq_iff [of _ "CHR ''e''"] ord_eq_iff [of _ "CHR ''E''"] ord_lower_char t
    by (auto split: if_splits)
  show ?thesis unfolding is_the_def 1 2 3 by (rule refl)
qed

lemma occurrences_the_lower:
  "occurrences ''the'' (lower s) = the_occurrences s"
proof (induction s rule: the_occurrences.induct)
  case (1 a b c s)
  have "prefix ''the'' (lower (a # b # c # s)) \<longleftrightarrow> is_the a b c"
    using lower_char_the [of a b c] by (auto simp: lower_def)
  then show ?case using 1 by (simp add: lower_def)
qed (simp_all add: lower_def)

text \<open>
  Claim C7, as stated, fails in its part on \<open>count\<close> pages: the answer is not the number of
  occurrences of the word \<open>the\<close>. In the text \<open>Please count the other Theme\<close> the word
  \<open>the\<close> stands once, in any letter case, and the answer is 3: \<open>the\<close> is counted inside
  \<open>other\<close> and \<open>Theme\<close> as well.
\<close>

theorem the_word_count_counterexample:
  "detect_task ''Please count the other Theme'' ''http://q/1'' = ''count''
   \<and> the_words ''Please count the other Theme'' = 1
   \<and> solve_quiz_page ''http://q/1''
       \<lparr>page_html = ''<p>Please count the other Theme</p>'',
        page_text = ''Please count the other Theme'', page_hrefs = [], page_scripts = []\<rparr>
     = Inr \<lparr>sol_answer = PyInt 3, sol_secret = ''UNKNOWN_SECRET''\<rparr>"
proof -
  have d: "detect_task ''Please count the other Theme'' ''http://q/1'' = ''count''"
    by code_simp
  have w: "the_words ''Please count the other Theme'' = 1"
    by code_simp
  have e: "extract_secret ''<p>Please count the other Theme</p>'' = Inr ''UNKNOWN_SECRET''"
    by code_simp
  have a: "solve_task ''count'' ''Please count the other Theme'' = PyInt 3"
    by code_simp
  show ?thesis using d w e a by (simp add: solve_quiz_page_def)
qed

text \<open>
  Claim C7, amended. The rendering-based solver returns, and its answer is determined by
  the task type and the rendered text: for \<open>count\<close> the number of places of the text at
  which the letters \<open>t\<close>, \<open>h\<close>, \<open>e\<close> stand in a row, each in either case, inside a longer
  word or not; for \<open>checksum\<close> the sum of the character codes modulo 1000; for \<open>scrape\<close>
  the number of maximal runs of digits; for \<open>audio\<close> the number 4; and otherwise the string
  \<open>task_executed_successfully\<close>. For the text \<open>Please count the the the cats\<close> the answer
  is 3.
\<close>

theorem solver_answer:
  "(\<exists>r. solve_quiz_page url pg = Inr r
        \<and> sol_answer r =
           (if detect_task (page_text pg) url = ''count''
              then PyInt (int (the_occurrences (page_text pg)))
            else if detect_task (page_text pg) url = ''checksum''
              then PyInt (int (sum_list (map ord (page_text pg))) mod 1000)
            else if detect_task (page_text pg) url = ''scrape''
              then PyInt (int (numeric_substrings (page_text pg)))
            else if detect_task (page_text pg) url = ''audio'' then PyInt 4
            else PyStr ''task_executed_successfully''))
   \<and> (page_text pg = ''Please count the the the cats''
        \<longrightarrow> (\<exists>r. solve_quiz_page url pg = Inr r \<and> sol_answer r = PyInt 3))"
proof -
  obtain s where s: "extract_secret (page_html pg) = Inr s"
    using extract_secret_total by blast
  have n: "length (findall [Plus (Pos [Dig])] t) = numeric_substrings t" for t
    by (simp add: findall_def findall_digits numeric_substrings_def)
  have a: "sol_answer \<lparr>sol_answer = solve_task (detect_task (page_text pg) url) (page_text pg),
                       sol_secret = s\<rparr> =
           (if detect_task (page_text pg) url = ''count''
              then PyInt (int (the_occurrences (page_text pg)))
            else if detect_task (page_text pg) url = ''checksum''
              then PyInt (int (sum_list (map ord (page_text pg))) mod 1000)
            else if detect_task (page_text pg) url = ''scrape''
              then PyInt (int (numeric_substrings (page_text pg)))
            else if detect_task (page_text pg) url = ''audio'' then PyInt 4
            else PyStr ''task_executed_successfully'')"
    by (simp add: solve_task_def py_count_the occurrences_the_lower n)
  have c: "detect_task ''Please count the the the cats'' url = ''count''"
    unfolding detect_task_def by code_simp
  have o: "the_occurrences ''Please count the the the cats'' = 3"
    by code_simp
  have "solve_task ''count'' ''Please count the the the cats''
        = PyInt (int (py_count ''the'' (lower ''Please count the the the cats'')))"
    by (simp add: solve_task_def)
  then have b: "solve_task (detect_task ''Please count the the the cats'' url)
                  ''Please count the the the cats'' = PyInt 3"
    using c o by (simp add: py_count_the occurrences_the_lower)
  have r: "solve_quiz_page url pg
           = Inr \<lparr>sol_answer = solve_task (detect_task (page_text pg) url) (page_text pg),
                   sol_secret = s\<rparr>"
    using s by (simp add: solve_quiz_page_def)
  show ?thesis
  proof (intro conjI impI)
    show "\<exists>r. solve_quiz_page url pg = Inr r
        \<and> sol_answer r =
           (if detect_task (page_text pg) url = ''count''
              then PyInt (int (the_occurrences (page_text pg)))
            else if detect_task (page_text pg) url = ''checksum''
              then PyInt (int (sum_list (map ord (page_text pg))) mod 1000)
            else if detect_task (page_text pg) url = ''scrape''
              then PyInt (int (numeric_substrings (page_text pg)))
            else if detect_task (page_text pg) url = ''audio'' then PyInt 4
            else PyStr ''task_executed_successfully'')"
      using r a by blast
  next
    assume "page_text pg = ''Please count the the the cats''"
    then show "\<exists>r. solve_quiz_page url pg = Inr r \<and> sol_answer r = PyInt 3"
      using r b by simp
  qed
qed

theorem solver_answer_witness:
  "solve_quiz_page ''http://q/1''
     \<lparr>page_html = ''<p>Please count the the the cats</p>'',
      page_text = ''Please count the the the cats'', page_hrefs = [], page_scripts = []\<rparr>
   = Inr \<lparr>sol_answer = PyInt 3, sol_secret = ''UNKNOWN_SECRET''\<rparr>
   \<and> (\<exists>r. solve_quiz_page ''http://q/1''
              \<lparr>page_html = [], page_text = ''Count THE Theme, then the other'',
               page_hrefs = [], page_scripts = []\<rparr> = Inr r
           \<and> sol_answer r = PyInt 5)
   \<and> (\<exists>r. solve_quiz_page ''http://q/1''
              \<lparr>page_html = [], page_text = ''checksum abc'', page_hrefs = [], page_scripts = []\<rparr> = Inr r
           \<and> sol_answer r = PyInt 177)
   \<and> (\<exists>r. solve_quiz_page ''http://q/scrape''
              \<lparr>page_html = [], page_text = ''a12 b3 44c5'', page_hrefs = [], page_scripts = []\<rparr> = Inr r
           \<and> sol_answer r = PyInt 4)
   \<and> (\<exists>r. solve_quiz_page ''http://q/audio''
              \<lparr>page_html = [], page_text = ''hello'', page_hrefs = [], page_scripts = []\<rparr> = Inr r
           \<and> sol_answer r = PyInt 4)
   \<and> (\<exists>r. solve_quiz_page ''http://q/1''
              \<lparr>page_html = [], page_text = ''hello'', page_hrefs = [], page_scripts = []\<rparr> = Inr r
           \<and> sol_answer r = PyStr ''task_executed_successfully'')"
proof -
  define pg where "pg = \<lparr>page_html = ''<p>Please count the the the cats</p>'',
      page_text = ''Please count the the the cats'', page_hrefs = [], page_scripts = []\<rparr>"
  have e: "extract_secret (page_html pg) = Inr ''UNKNOWN_SECRET''"
    unfolding pg_def page.simps by code_simp
  have t: "page_text pg = ''Please count the the the cats''"
    by (simp add: pg_def)
  from t solver_answer [of "''http://q/1''" pg]
  obtain r where r: "solve_quiz_page ''http://q/1'' pg = Inr r" "sol_answer r = PyInt 3"
    by blast
  have "sol_secret r = ''UNKNOWN_SECRET''"
    using r(1) e by (auto simp: solve_quiz_page_def)
  then have "r = \<lparr>sol_answer = PyInt 3, sol_secret = ''UNKNOWN_SECRET''\<rparr>"
    using r(2) by (cases r) simp
  then have 0: "solve_quiz_page ''http://q/1''
     \<lparr>page_html = ''<p>Please count the the the cats</p>'',
      page_text = ''Please count the the the cats'', page_hrefs = [], page_scripts = []\<rparr>
   = Inr \<lparr>sol_answer = PyInt 3, sol_secret = ''UNKNOWN_SECRET''\<rparr>"
    using r(1) by (simp add: pg_def)
  have v1: "(if detect_task ''Count THE Theme, then the other'' ''http://q/1'' = ''count''
              then PyInt (int (the_occurrences ''Count THE Theme, then the other''))
            else if detect_task ''Count THE Theme, then the other'' ''http://q/1'' = ''checksum''
              then PyInt (int (sum_list (map ord ''Count THE Theme, then the other'')) mod 1000)
            else if detect_task ''Count THE Theme, then the other'' ''http://q/1'' = ''scrape''
              then PyInt (int (numeric_substrings ''Count THE Theme, then the other''))
            else if detect_task ''Count THE Theme, then the other'' ''http://q/1'' = ''audio'' then PyInt 4
            else PyStr ''task_executed_successfully'') = PyInt 5"
    by code_simp
  have 1: "\<exists>r. solve_quiz_page ''http://q/1''
              \<lparr>page_html = [], page_text = ''Count THE Theme, then the other'', page_hrefs = [], page_scripts = []\<rparr> = Inr r
           \<and> sol_answer r = PyInt 5"
    using solver_answer [of "''http://q/1''" "\<lparr>page_html = [], page_text = ''Count THE Theme, then the other'',
               page_hrefs = [], page_scripts = []\<rparr>", THEN conjunct1]
    unfolding page.select_convs v1 .
  have v2: "(if detect_task ''checksum abc'' ''http://q/1'' = ''count''
              then PyInt (int (the_occurrences ''checksum abc''))
            else if detect_task ''checksum abc'' ''http://q/1'' = ''checksum''
              then PyInt (int (sum_list (map ord ''checksum abc'')) mod 1000)
            else if detect_task ''checksum abc'' ''http://q/1'' = ''scrape''
              then PyInt (int (numeric_substrings ''checksum abc''))
            else if detect_task ''checksum abc'' ''http://q/1'' = ''audio'' then PyInt 4
            else PyStr ''task_executed_successfully'') = PyInt 177"
    by code_simp
  have 2: "\<exists>r. solve_quiz_page ''http://q/1''
              \<lparr>page_html = [], page_text = ''checksum abc'', page_hrefs = [], page_scripts = []\<rparr> = Inr r
           \<and> sol_answer r = PyInt 177"
    using solver_answer [of "''http://q/1''" "\<lparr>page_html = [], page_text = ''checksum abc'',
               page_hrefs = [], page_scripts = []\<rparr>", THEN conjunct1]
    unfolding page.select_convs v2 .
  have v3: "(if detect_task ''a12 b3 44c5'' ''http://q/scrape'' = ''count''
              then PyInt (int (the_occurrences ''a12 b3 44c5''))
            else if detect_task ''a12 b3 44c5'' ''http://q/scrape'' = ''checksum''
              then PyInt (int (sum_list (map ord ''a12 b3 44c5'')) mod 1000)
            else if detect_task ''a12 b3 44c5'' ''http://q/scrape'' = ''scrape''
              then PyInt (int (numeric_substrings ''a12 b3 44c5''))
            else if detect_task ''a12 b3 44c5'' ''http://q/scrape'' = ''audio'' then PyInt 4
            else PyStr ''task_executed_successfully'') = PyInt 4"
    by code_simp
  have 3: "\<exists>r. solve_quiz_page ''http://q/scrape''
              \<lparr>page_html = [], page_text = ''a12 b3 44c5'', page_hrefs = [], page_scripts = []\<rparr> = Inr r
           \<and> sol_answer r = PyInt 4"
    using solver_answer [of "''http://q/scrape''" "\<lparr>page_html = [], page_text = ''a12 b3 44c5'',
               page_hrefs = [], page_scripts = []\<rparr>", THEN conjunct1]
    unfolding page.select_convs v3 .
  have v4: "(if detect_task ''hello'' ''http://q/audio'' = ''count''
              then PyInt (int (the_occurrences ''hello''))
            else if detect_task ''hello'' ''http://q/audio'' = ''checksum''
              then PyInt (int (sum_list (map ord ''hello'')) mod 1000)
            else if detect_task ''hello'' ''http://q/audio'' = ''scrape''
              then PyInt (int (numeric_substrings ''hello''))
            else if detect_task ''hello'' ''http://q/audio'' = ''audio'' then PyInt 4
            else PyStr ''task_executed_successfully'') = PyInt 4"
    by code_simp
  have 4: "\<exists>r. solve_quiz_page ''http://q/audio''
              \<lparr>page_html = [], page_text = ''hello'', page_hrefs = [], page_scripts = []\<rparr> = Inr r
           \<and> sol_answer r = PyInt 4"
    using solver_answer [of "''http://q/audio''" "\<lparr>page_html = [], page_text = ''hello'',
               page_hrefs = [], page_scripts = []\<rparr>", THEN conjunct1]
    unfolding page.select_convs v4 .
  have v5: "(if detect_task ''hello'' ''http://q/1'' = ''count''
              then PyInt (int (the_occurrences ''hello''))
            else if detect_task ''hello'' ''http://q/1'' = ''checksum''
              then PyInt (int (sum_list (map ord ''hello'')) mod 1000)
            else if detect_task ''hello'' ''http://q/1'' = ''scrape''
              then PyInt (int (numeric_substrings ''hello''))
            else if detect_task ''hello'' ''http://q/1'' = ''audio'' then PyInt 4
            else PyStr ''task_executed_successfully'') = PyStr ''task_executed_successfully''"
    by code_simp
  have 5: "\<exists>r. solve_quiz_page ''http://q/1''
              \<lparr>page_html = [], page_text = ''hello'', page_hrefs = [], page_scripts = []\<rparr> = Inr r
           \<and> sol_answer r = PyStr ''task_executed_successfully''"
    using solver_answer [of "''http://q/1''" "\<lparr>page_html = [], page_text = ''hello'',
               page_hrefs = [], page_scripts = []\<rparr>", THEN conjunct1]
    unfolding page.select_convs v5 .
  show ?thesis using 0 1 2 3 4 5 by (intro conjI)
qed

section \<open>POST /quiz\<close>

text \<open>
  Claim C8, as stated, fails: the comparison is not an exact match of the supplied
  strings. An email with a leading space differs from the configured one and is accepted,
  and the chain is enqueued.
\<close>

theorem quiz_exact_match_counterexample:
  "\<not> (verify_credentials '' 22f1000912@ds.study.iitm.ac.in'' ''MONAHARINIR0802''
        \<longleftrightarrow> '' 22f1000912@ds.study.iitm.ac.in'' = YOUR_EMAIL \<and> ''MONAHARINIR0802'' = YOUR_SECRET)
   \<and> snd (solve_quiz \<lparr>req_email = '' 22f1000912@ds.study.iitm.ac.in'',
                       req_secret = ''MONAHARINIR0802'', req_url = ''http://q/1''\<rparr> [])
       = [\<lparr>task_url = ''http://q/1'', task_email = '' 22f1000912@ds.study.iitm.ac.in'',
           task_secret = ''MONAHARINIR0802''\<rparr>]"
proof -
  have v: "verify_credentials '' 22f1000912@ds.study.iitm.ac.in'' ''MONAHARINIR0802''"
    by code_simp
  have ne: "'' 22f1000912@ds.study.iitm.ac.in'' \<noteq> YOUR_EMAIL"
    by (simp add: YOUR_EMAIL_def QUIZ_EMAIL_def)
  show ?thesis using v ne by (simp add: solve_quiz_def)
qed

text \<open>
  Claim C8, amended. \<open>POST /quiz\<close> accepts a request exactly when the email and the secret,
  each stripped of surrounding white space, equal the configured values. Exactly when it
  does not accept, it raises HTTP 403 with a detail that names the expected and the
  received email, and the list of background tasks is unchanged. Exactly when it accepts,
  it adds one task (the chain driver on the URL, email and secret as supplied) and returns
  the acknowledgement with status \<open>started\<close>, the URL, the email and the timeout.
\<close>

theorem quiz_endpoint:
  "(verify_credentials (req_email req) (req_secret req)
      \<longleftrightarrow> strip (req_email req) = YOUR_EMAIL \<and> strip (req_secret req) = YOUR_SECRET)
   \<and> (\<not> verify_credentials (req_email req) (req_secret req) \<longrightarrow>
        (\<exists>e. solve_quiz req tasks = (Inl e, tasks) \<and> status_code e = 403
             \<and> expected_email e = YOUR_EMAIL \<and> received_email e = req_email req))
   \<and> (verify_credentials (req_email req) (req_secret req) \<longrightarrow>
        (\<exists>a. solve_quiz req tasks =
               (Inr a, tasks @ [\<lparr>task_url = req_url req, task_email = req_email req,
                                  task_secret = req_secret req\<rparr>])
             \<and> status a = ''started'' \<and> initial_url a = req_url req
             \<and> ack_email a = req_email req \<and> timeout_seconds a = TOTAL_WORK_TIMEOUT))
   \<and> ((\<exists>e. fst (solve_quiz req tasks) = Inl e)
        \<longleftrightarrow> \<not> verify_credentials (req_email req) (req_secret req))"
  by (simp add: solve_quiz_def verify_credentials_def)

theorem quiz_endpoint_witness:
  "(\<exists>e. solve_quiz \<lparr>req_email = ''x@y'', req_secret = ''MONAHARINIR0802'', req_url = ''http://q/1''\<rparr> []
          = (Inl e, []) \<and> status_code e = 403 \<and> received_email e = ''x@y'')
   \<and> (\<exists>a. solve_quiz \<lparr>req_email = ''22f1000912@ds.study.iitm.ac.in'', req_secret = ''MONAHARINIR0802 '',
                       req_url = ''http://q/1''\<rparr> []
          = (Inr a, [\<lparr>task_url = ''http://q/1'', task_email = ''22f1000912@ds.study.iitm.ac.in'',
                      task_secret = ''MONAHARINIR0802 ''\<rparr>])
        \<and> status a = ''started'' \<and> initial_url a = ''http://q/1'')"
proof -
  have bad: "\<not> verify_credentials ''x@y'' ''MONAHARINIR0802''"
    by code_simp
  have good: "verify_credentials ''22f1000912@ds.study.iitm.ac.in'' ''MONAHARINIR0802 ''"
    by code_simp
  from bad good
    quiz_endpoint [of "\<lparr>req_email = ''x@y'', req_secret = ''MONAHARINIR0802'', req_url = ''http://q/1''\<rparr>" "[]"]
    quiz_endpoint [of "\<lparr>req_email = ''22f1000912@ds.study.iitm.ac.in'', req_secret = ''MONAHARINIR0802 '',
                       req_url = ''http://q/1''\<rparr>" "[]"]
  show ?thesis by simp blast
qed

section \<open>Properties of mask_secret\<close>

text \<open>
  Claim C10. For a valid reference \<open>payload\<close>, \<open>mask_secret\<close> returns a reference to a new
  dictionary. The new dictionary maps \<open>secret\<close> to \<open>****\<close> when the input has that key, and
  every other key to its value in the input; when the input has no key \<open>secret\<close> the new
  dictionary equals the input. Every dictionary that existed before the call, the input
  among them, is unchanged.
\<close>

theorem mask_secret_frame:
  assumes "payload < length h" and "mask_secret h payload = (out, h')"
  shows "out \<noteq> payload \<and> out = length h \<and> length h' = Suc (length h)
       \<and> (\<forall>a < length h. h' ! a = h ! a)
       \<and> h' ! payload = h ! payload
       \<and> (\<forall>k. k \<noteq> ''secret'' \<longrightarrow> (h' ! out) k = (h ! payload) k)
       \<and> ((h ! payload) ''secret'' \<noteq> None \<longrightarrow>
            h' ! out = (h ! payload)(''secret'' \<mapsto> PyStr ''****''))
       \<and> ((h ! payload) ''secret'' = None \<longrightarrow> h' ! out = h ! payload)"
  using assms
  by (auto simp: mask_secret_def dict_copy_def dict_setitem_def nth_append
           split: if_splits)

theorem mask_secret_frame_witness:
  "mask_secret [[''email'' \<mapsto> PyStr ''a@b'', ''secret'' \<mapsto> PyStr ''s3'']] 0
     = (1, [[''email'' \<mapsto> PyStr ''a@b'', ''secret'' \<mapsto> PyStr ''s3''],
            [''email'' \<mapsto> PyStr ''a@b'', ''secret'' \<mapsto> PyStr ''****'']])
   \<and> (1::nat) \<noteq> 0"
  using mask_secret_frame [of 0 "[[''email'' \<mapsto> PyStr ''a@b'', ''secret'' \<mapsto> PyStr ''s3'']]" 1
      "[[''email'' \<mapsto> PyStr ''a@b'', ''secret'' \<mapsto> PyStr ''s3''],
        [''email'' \<mapsto> PyStr ''a@b'', ''secret'' \<mapsto> PyStr ''****'']]"]
  by (simp add: mask_secret_def dict_copy_def dict_setitem_def)

end
